theory Spec2Isabelle
  imports Main
begin

section \<open>Roles and identity claims (src/types/index.ts)\<close>

text \<open>
  \<^verbatim>\<open>enum UserRole\<close>: a closed enumeration of eight roles.
\<close>

datatype UserRole =
  ADMIN | SUB_ADMIN | FLEET_MGR | SUB_FLEET_MGR | FLEET_USER | REG_OWNER | ONBOARDING | UNIT_TESTER

text \<open>
  \<^verbatim>\<open>interface JwtPayload\<close>. \<open>generateAccessToken\<close> writes the fleet scope as
  \<^verbatim>\<open>fleetId || null\<close> and the owned devices as \<^verbatim>\<open>ownedRegulatorIds || []\<close>, so a decoded
  access payload holds \<open>null\<close> (\<open>None\<close>) or a non-empty string for the fleet scope. \<open>iat\<close>
  and \<open>exp\<close> are seconds since the epoch.
\<close>

record JwtPayload =
  sub :: string
  userId :: string
  role :: UserRole
  fleetId :: "string option"
  ownedRegulatorIds :: "string list"
  iat :: int
  exp :: int
  jti :: string

text \<open>\<^verbatim>\<open>interface RefreshTokenPayload\<close> (fields prefixed \<open>rp_\<close>).\<close>

record RefreshTokenPayload =
  rp_sub :: string
  rp_userId :: string
  rp_tokenFamily :: string
  rp_iat :: int
  rp_exp :: int

text \<open>
  \<^verbatim>\<open>jwt.verify(token, secret) as JwtPayload\<close> is an unchecked cast: the object returned at run
  time is whatever payload the token carries. \<open>claims\<close> is that object, of one of the two
  shapes this code base signs.
\<close>

datatype claims = AccessClaims JwtPayload | RefreshClaims RefreshTokenPayload

fun claims_userId :: "claims \<Rightarrow> string" where
  "claims_userId (AccessClaims p) = userId p"
| "claims_userId (RefreshClaims p) = rp_userId p"

fun claims_role :: "claims \<Rightarrow> UserRole option" where
  "claims_role (AccessClaims p) = Some (role p)"
| "claims_role (RefreshClaims p) = None"

section \<open>Authorization predicates (middleware/auth)\<close>

text \<open>
  \<^verbatim>\<open>
  export function canAccessFleet(user: JwtPayload, fleetId: string): boolean {
    if (user.role === UserRole.ADMIN || user.role === UserRole.SUB_ADMIN) return true;
    if ((user.role === UserRole.FLEET_MGR || user.role === UserRole.SUB_FLEET_MGR)
        && user.fleetId === fleetId) return true;
    return false;
  }\<close>
\<close>

definition canAccessFleet :: "JwtPayload \<Rightarrow> string \<Rightarrow> bool" where
  "canAccessFleet actor fid =
     (if role actor = ADMIN \<or> role actor = SUB_ADMIN then True
      else if (role actor = FLEET_MGR \<or> role actor = SUB_FLEET_MGR) \<and> fleetId actor = Some fid
      then True
      else False)"

text \<open>
  In \<open>canAccessRegulator\<close> the conjunct \<^verbatim>\<open>regulatorFleetId &&\<close> is JavaScript truthiness of a
  \<^verbatim>\<open>string | null\<close>: \<open>null\<close> and the empty string are falsy.
\<close>

definition truthy_str :: "string option \<Rightarrow> bool" where
  "truthy_str v = (case v of None \<Rightarrow> False | Some s \<Rightarrow> s \<noteq> [])"

definition canAccessRegulator :: "JwtPayload \<Rightarrow> string option \<Rightarrow> string option \<Rightarrow> bool" where
  "canAccessRegulator actor regulatorFleetId regulatorOwnerId =
     (if role actor = ADMIN \<or> role actor = SUB_ADMIN then True
      else if (role actor = FLEET_MGR \<or> role actor = SUB_FLEET_MGR)
              \<and> truthy_str regulatorFleetId \<and> fleetId actor = regulatorFleetId then True
      else if role actor = FLEET_USER \<and> truthy_str regulatorFleetId
              \<and> fleetId actor = regulatorFleetId then True
      else if role actor = REG_OWNER \<and> regulatorOwnerId = Some (userId actor) then True
      else False)"

text \<open>
  \<^verbatim>\<open>
  export function canManageUser(requestingUser, targetUserRole, targetUserFleetId: string | null) {
    if (requestingUser.role === UserRole.ADMIN) return true;
    if (requestingUser.role === UserRole.FLEET_MGR) {
      const fleetRoles = [UserRole.FLEET_USER, UserRole.SUB_FLEET_MGR];
      return fleetRoles.includes(targetUserRole) && requestingUser.fleetId === targetUserFleetId;
    }
    return false;
  }\<close>
\<close>

definition canManageUser :: "JwtPayload \<Rightarrow> UserRole \<Rightarrow> string option \<Rightarrow> bool" where
  "canManageUser requestingUser targetUserRole targetUserFleetId =
     (if role requestingUser = ADMIN then True
      else if role requestingUser = FLEET_MGR then
        (let fleetRoles = [FLEET_USER, SUB_FLEET_MGR]
         in targetUserRole \<in> set fleetRoles \<and> fleetId requestingUser = targetUserFleetId)
      else False)"

section \<open>Errors\<close>

text \<open>
  \<open>AppError message statusCode code\<close> is the service's own error class; \<open>Error\<close> is a plain
  JavaScript error (thrown by \<open>parseExpiry\<close>, or a \<open>TypeError\<close>); the last two are the
  errors \<open>jwt.verify\<close> throws.
\<close>

datatype error =
    AppError string nat string
  | Error string
  | TokenExpiredError
  | JsonWebTokenError

section \<open>Configuration (src/config/index.ts)\<close>

record Config =
  jwt_secret :: string
  accessTokenExpiry :: string
  refreshTokenExpiry :: string

definition isDigit :: "char \<Rightarrow> bool" where
  "isDigit c = (c \<in> set ''0123456789'')"

definition digit_val :: "char \<Rightarrow> int" where
  "digit_val c = of_char c - 48"

text \<open>\<^verbatim>\<open>parseInt(digits, 10)\<close> on a string of decimal digits.\<close>

definition parseInt :: "string \<Rightarrow> int" where
  "parseInt ds = foldl (\<lambda>acc c. 10 * acc + digit_val c) 0 ds"

text \<open>
  \<^verbatim>\<open>
  function parseExpiry(expiry: string): number {
    const match = expiry.match(/^(\d+)([smhd])$/);
    if (!match) throw new Error(`Invalid expiry format: ${expiry}`);
    const value = parseInt(match[1], 10);
    switch (match[2]) { case 's': return value; case 'm': return value * 60;
      case 'h': return value * 60 * 60; case 'd': return value * 60 * 60 * 24; }
  }\<close>
  The pattern matches one or more digits followed by exactly one unit letter.
\<close>

definition parseExpiry :: "string \<Rightarrow> error + int" where
  "parseExpiry expiry =
     (if length expiry \<ge> 2 \<and> list_all isDigit (butlast expiry) \<and> last expiry \<in> set ''smhd'' then
        (let v = parseInt (butlast expiry); unit = last expiry in
         if unit = CHR ''s'' then Inr v
         else if unit = CHR ''m'' then Inr (v * 60)
         else if unit = CHR ''h'' then Inr (v * 60 * 60)
         else Inr (v * 60 * 60 * 24))
      else Inl (Error (''Invalid expiry format: '' @ expiry)))"

definition getAccessTokenExpirySeconds :: "Config \<Rightarrow> error + int" where
  "getAccessTokenExpirySeconds cfg = parseExpiry (accessTokenExpiry cfg)"

definition getRefreshTokenExpirySeconds :: "Config \<Rightarrow> error + int" where
  "getRefreshTokenExpirySeconds cfg = parseExpiry (refreshTokenExpiry cfg)"

section \<open>Token codec (utils/jwt)\<close>

text \<open>
  Tokens are strings in the source. The third-party library \<open>jsonwebtoken\<close> is modelled
  symbolically: a string that is a well-formed signed token is \<open>Jwt body iat exp key\<close>, the
  claims it carries, its issue and expiry times in seconds and the secret it was signed
  with; every other string is \<open>Opaque s\<close>. \<open>jwt.sign(payload, secret, {expiresIn})\<close> stamps
  \<open>iat = floor(Date.now() / 1000)\<close> and \<open>exp = iat + expiresIn\<close>; \<open>jwt.verify\<close> rejects a
  string that is not a token, a signature made with another secret, and a token whose
  \<open>exp\<close> is not after the current second. Only the two payload shapes this code base signs
  occur as bodies. \<open>Date.now()\<close> is the parameter \<open>now\<close>, in milliseconds; \<open>uuidv4()\<close> is a
  parameter as well.
\<close>

datatype jwt_body =
    AccessBody string string UserRole "string option" "string list" string
  | RefreshBody string string string

datatype token = Jwt jwt_body int int string | Opaque string

definition jwt_sign :: "jwt_body \<Rightarrow> string \<Rightarrow> int \<Rightarrow> int \<Rightarrow> token" where
  "jwt_sign body secret expiresIn now =
     (let iat = now div 1000 in Jwt body iat (iat + expiresIn) secret)"

fun payload_of :: "jwt_body \<Rightarrow> int \<Rightarrow> int \<Rightarrow> claims" where
  "payload_of (AccessBody s u r f owned j) i e =
     AccessClaims \<lparr>sub = s, userId = u, role = r, fleetId = f, ownedRegulatorIds = owned,
                   iat = i, exp = e, jti = j\<rparr>"
| "payload_of (RefreshBody s u fam) i e =
     RefreshClaims \<lparr>rp_sub = s, rp_userId = u, rp_tokenFamily = fam, rp_iat = i, rp_exp = e\<rparr>"

fun jwt_verify :: "token \<Rightarrow> string \<Rightarrow> int \<Rightarrow> error + claims" where
  "jwt_verify (Opaque s) secret now = Inl JsonWebTokenError"
| "jwt_verify (Jwt body i e k) secret now =
     (if k \<noteq> secret then Inl JsonWebTokenError
      else if now div 1000 \<ge> e then Inl TokenExpiredError
      else Inr (payload_of body i e))"

text \<open>\<^verbatim>\<open>fleetId || null\<close>: the empty string becomes \<open>null\<close>.\<close>

definition or_null :: "string option \<Rightarrow> string option" where
  "or_null v = (case v of None \<Rightarrow> None | Some s \<Rightarrow> if s = [] then None else Some s)"

text \<open>
  \<^verbatim>\<open>
  export function generateAccessToken(userId, email, role, fleetId?, ownedRegulatorIds?) {
    const payload = { sub: email, userId, role, fleetId: fleetId || null,
                      ownedRegulatorIds: ownedRegulatorIds || [], jti: uuidv4() };
    return jwt.sign(payload, config.jwt.secret, { expiresIn: getAccessTokenExpirySeconds() });
  }\<close>
\<close>

definition generateAccessToken ::
  "Config \<Rightarrow> int \<Rightarrow> string \<Rightarrow> string \<Rightarrow> string \<Rightarrow> UserRole \<Rightarrow> string option \<Rightarrow> string list
   \<Rightarrow> error + token" where
  "generateAccessToken cfg now uuid uid email r fid owned =
     (case getAccessTokenExpirySeconds cfg of
        Inl e \<Rightarrow> Inl e
      | Inr ttl \<Rightarrow>
          Inr (jwt_sign (AccessBody email uid r (or_null fid) owned uuid) (jwt_secret cfg) ttl now))"

text \<open>
  \<^verbatim>\<open>
  export function generateRefreshToken(userId, email, tokenFamily?: string) {
    const family = tokenFamily || uuidv4();
    const payload = { sub: email, userId, tokenFamily: family };
    const token = jwt.sign(payload, config.jwt.secret, { expiresIn: getRefreshTokenExpirySeconds() });
    return { token, family };
  }\<close>
  \<^verbatim>\<open>tokenFamily || uuidv4()\<close> takes the fresh id when the argument is absent or empty.
\<close>

definition generateRefreshToken ::
  "Config \<Rightarrow> int \<Rightarrow> string \<Rightarrow> string \<Rightarrow> string \<Rightarrow> string option \<Rightarrow> error + (token \<times> string)" where
  "generateRefreshToken cfg now uuid uid email tokenFamily =
     (let family = (case tokenFamily of None \<Rightarrow> uuid | Some f \<Rightarrow> if f \<noteq> [] then f else uuid) in
      case getRefreshTokenExpirySeconds cfg of
        Inl e \<Rightarrow> Inl e
      | Inr ttl \<Rightarrow> Inr (jwt_sign (RefreshBody email uid family) (jwt_secret cfg) ttl now, family))"

record TokenPair =
  tp_accessToken :: token
  tp_refreshToken :: token
  tp_tokenFamily :: string
  tp_accessTokenExpiresIn :: int
  tp_refreshTokenExpiresAt :: int

text \<open>
  What one service call draws from outside the program: the clock \<open>Date.now()\<close>, the
  \<open>jti\<close> of the access token, the candidate family id, the primary key of the ledger row
  the call may insert, and the database's choice \<open>env_pick\<close> among the rows that match a
  \<^verbatim>\<open>findOne\<close> on the refresh-token table (the query has no \<^verbatim>\<open>order\<close>, the primary keys
  are random UUIDs, and \<^verbatim>\<open>token_hash\<close> carries no unique index, so which of several
  matching rows comes back is not decided by the program).
\<close>

record Env =
  env_now :: int
  env_jti :: string
  env_family :: string
  env_rowId :: string
  env_pick :: nat

definition generateTokenPair ::
  "Config \<Rightarrow> Env \<Rightarrow> string \<Rightarrow> string \<Rightarrow> UserRole \<Rightarrow> string option \<Rightarrow> string list \<Rightarrow> string option
   \<Rightarrow> error + TokenPair" where
  "generateTokenPair cfg env uid email r fid owned existingTokenFamily =
     (case generateAccessToken cfg (env_now env) (env_jti env) uid email r fid owned of
        Inl e \<Rightarrow> Inl e
      | Inr accessToken \<Rightarrow>
     (case generateRefreshToken cfg (env_now env) (env_family env) uid email existingTokenFamily of
        Inl e \<Rightarrow> Inl e
      | Inr (refreshToken, family) \<Rightarrow>
     (case getAccessTokenExpirySeconds cfg of
        Inl e \<Rightarrow> Inl e
      | Inr accessTokenExpiresIn \<Rightarrow>
     (case getRefreshTokenExpirySeconds cfg of
        Inl e \<Rightarrow> Inl e
      | Inr rttl \<Rightarrow>
          Inr \<lparr>tp_accessToken = accessToken, tp_refreshToken = refreshToken,
               tp_tokenFamily = family, tp_accessTokenExpiresIn = accessTokenExpiresIn,
               tp_refreshTokenExpiresAt = env_now env + rttl * 1000\<rparr>))))"

text \<open>
  \<^verbatim>\<open>
  export function verifyAccessToken(token: string): JwtPayload {
    return jwt.verify(token, config.jwt.secret) as JwtPayload; }
  export function verifyRefreshToken(token: string): RefreshTokenPayload {
    return jwt.verify(token, config.jwt.secret) as RefreshTokenPayload; }\<close>
\<close>

definition verifyAccessToken :: "Config \<Rightarrow> token \<Rightarrow> int \<Rightarrow> error + claims" where
  "verifyAccessToken cfg tok now = jwt_verify tok (jwt_secret cfg) now"

definition verifyRefreshToken :: "Config \<Rightarrow> token \<Rightarrow> int \<Rightarrow> error + claims" where
  "verifyRefreshToken cfg tok now = jwt_verify tok (jwt_secret cfg) now"

text \<open>\<open>decodeToken\<close>: \<^verbatim>\<open>jwt.decode\<close>, the payload without any check, or \<open>null\<close>.\<close>

fun decodeToken :: "token \<Rightarrow> claims option" where
  "decodeToken (Jwt body i e k) = Some (payload_of body i e)"
| "decodeToken (Opaque s) = None"

section \<open>Password utilities (utils/password)\<close>

text \<open>
  Modelled from the spec: \<open>hashToken\<close> of utils/password, whose source file is not part of
  the sources at hand (only its tests are: a hex SHA-256 digest, equal for equal inputs).
  The ledger stores "the hash of the refresh token, never the raw token". The digest is
  modelled symbolically, as a collision-free function of the token.
\<close>

datatype digest = SHA256 token

definition hashToken :: "token \<Rightarrow> digest" where
  "hashToken t = SHA256 t"

text \<open>
  \<open>verifyPassword\<close> and \<open>hashPassword\<close> (bcrypt, same missing file) are parameters of the
  service.
\<close>

record Deps =
  verifyPassword :: "string \<Rightarrow> string \<Rightarrow> bool"
  hashPassword :: "string \<Rightarrow> string"

definition isUpper :: "char \<Rightarrow> bool" where
  "isUpper c = (c \<in> set ''ABCDEFGHIJKLMNOPQRSTUVWXYZ'')"

definition isLower :: "char \<Rightarrow> bool" where
  "isLower c = (c \<in> set ''abcdefghijklmnopqrstuvwxyz'')"

text \<open>
  The special characters are those of the validation chain's pattern
  \<^verbatim>\<open>/[!@#$%^&*()_+\-=[\]{};':"\\|,.<>/?]/\<close>; the last three below are the single quote, the
  double quote and the backslash.
\<close>

definition specialChars :: string where
  "specialChars = ''!@#$%^&*()_+-=[]{};:|,.<>/?'' @ [CHR 0x27, CHR 0x22, CHR 0x5C]"

definition isSpecial :: "char \<Rightarrow> bool" where
  "isSpecial c = (c \<in> set specialChars)"

definition MSG_MIN_LENGTH :: string where
  "MSG_MIN_LENGTH = ''Password must be at least 8 characters long''"

definition MSG_MAX_LENGTH :: string where
  "MSG_MAX_LENGTH = ''Password must be at most 128 characters long''"

definition MSG_UPPERCASE :: string where
  "MSG_UPPERCASE = ''Password must contain at least one uppercase letter''"

definition MSG_LOWERCASE :: string where
  "MSG_LOWERCASE = ''Password must contain at least one lowercase letter''"

definition MSG_NUMBER :: string where
  "MSG_NUMBER = ''Password must contain at least one number''"

definition MSG_SPECIAL :: string where
  "MSG_SPECIAL = ''Password must contain at least one special character''"

record PasswordValidation =
  valid :: bool
  errors :: "string list"

text \<open>
  Modelled from the spec: \<open>validatePasswordStrength\<close> of utils/password, whose source file
  is not part of the sources at hand. The policy is "minimum 8 and maximum 128 characters;
  at least one uppercase letter, one lowercase letter, one digit, one character from a
  defined special-character set; violations accumulate into a list of distinct
  human-readable messages rather than short-circuiting on the first failure". Five of the
  messages are the ones its unit tests expect; the text of the maximum-length message is
  not fixed by the tests.
\<close>

definition validatePasswordStrength :: "string \<Rightarrow> PasswordValidation" where
  "validatePasswordStrength password =
     (let errs =
            (if length password < 8 then [MSG_MIN_LENGTH] else [])
          @ (if length password > 128 then [MSG_MAX_LENGTH] else [])
          @ (if \<not> list_ex isUpper password then [MSG_UPPERCASE] else [])
          @ (if \<not> list_ex isLower password then [MSG_LOWERCASE] else [])
          @ (if \<not> list_ex isDigit password then [MSG_NUMBER] else [])
          @ (if \<not> list_ex isSpecial password then [MSG_SPECIAL] else [])
      in \<lparr>valid = (length errs = 0), errors = errs\<rparr>)"

text \<open>\<^verbatim>\<open>Array.prototype.join\<close>.\<close>

fun join :: "string \<Rightarrow> string list \<Rightarrow> string" where
  "join sep [] = []"
| "join sep [x] = x"
| "join sep (x # y # ys) = x @ sep @ join sep (y # ys)"

section \<open>Persistent store (models)\<close>

text \<open>
  One record per table row, the tables as lists. A lookup on a unique column (a user's
  email, a primary key) matches at most one row. The refresh-token table has no unique
  column besides its random primary key: a lookup by hash may match several rows, and the
  database returns any one of them. Dates are milliseconds since the epoch. \<open>User\<close> and
  \<open>Regulator\<close> are \<open>paranoid\<close> models: every query skips rows whose \<open>deletedAt\<close> is set.
\<close>

record User =
  user_id :: string
  user_email :: string
  user_passwordHash :: string
  user_role :: UserRole
  user_fleetId :: "string option"
  user_firstName :: string
  user_lastName :: string
  user_phoneNumber :: "string option"
  user_isActive :: bool
  user_createdAt :: int
  user_updatedAt :: int
  user_lastLoginAt :: "int option"
  user_deletedAt :: "int option"

record UserPublic =
  pub_id :: string
  pub_email :: string
  pub_role :: UserRole
  pub_fleetId :: "string option"
  pub_firstName :: string
  pub_lastName :: string
  pub_phoneNumber :: "string option"
  pub_createdAt :: int
  pub_lastLoginAt :: "int option"

definition toPublic :: "User \<Rightarrow> UserPublic" where
  "toPublic u =
     \<lparr>pub_id = user_id u, pub_email = user_email u, pub_role = user_role u,
      pub_fleetId = user_fleetId u, pub_firstName = user_firstName u,
      pub_lastName = user_lastName u, pub_phoneNumber = user_phoneNumber u,
      pub_createdAt = user_createdAt u, pub_lastLoginAt = user_lastLoginAt u\<rparr>"

text \<open>The session ledger: table \<open>refresh_tokens\<close> (model \<open>RefreshToken\<close>).\<close>

record RefreshToken =
  rt_id :: string
  rt_userId :: string
  rt_tokenHash :: digest
  rt_tokenFamily :: string
  rt_expiresAt :: int
  rt_revokedAt :: "int option"
  rt_createdAt :: int

record PasswordReset =
  pr_id :: string
  pr_userId :: string
  pr_tokenHash :: digest
  pr_expiresAt :: int
  pr_usedAt :: "int option"
  pr_createdAt :: int

record Regulator =
  reg_id :: string
  reg_fleetId :: "string option"
  reg_ownerUserId :: "string option"
  reg_isActive :: bool
  reg_deletedAt :: "int option"

record DB =
  users :: "User list"
  refresh_tokens :: "RefreshToken list"
  password_resets :: "PasswordReset list"
  regulators :: "Regulator list"

text \<open>\<^verbatim>\<open>User.findOne({ where: { email, isActive: true } })\<close>\<close>

definition User_findOne_active_email :: "DB \<Rightarrow> string \<Rightarrow> User option" where
  "User_findOne_active_email db email =
     find (\<lambda>u. user_email u = email \<and> user_isActive u \<and> user_deletedAt u = None) (users db)"

text \<open>\<^verbatim>\<open>User.findByPk(id)\<close>\<close>

definition User_findByPk :: "DB \<Rightarrow> string \<Rightarrow> User option" where
  "User_findByPk db uid = find (\<lambda>u. user_id u = uid \<and> user_deletedAt u = None) (users db)"

text \<open>
  \<^verbatim>\<open>
  let ownedRegulatorIds: string[] = [];
  if (user.role === UserRole.REG_OWNER) {
    const ownedRegulators = await Regulator.findAll({
      where: { ownerUserId: user.id, isActive: true }, attributes: ['id'] });
    ownedRegulatorIds = ownedRegulators.map(r => r.id);
  }\<close>
\<close>

definition ownedRegulatorIdsOf :: "DB \<Rightarrow> User \<Rightarrow> string list" where
  "ownedRegulatorIdsOf db u =
     (if user_role u = REG_OWNER then
        map reg_id (filter (\<lambda>r. reg_ownerUserId r = Some (user_id u) \<and> reg_isActive r
                                  \<and> reg_deletedAt r = None) (regulators db))
      else [])"

text \<open>\<^verbatim>\<open>RefreshToken.create({ userId, tokenHash, tokenFamily, expiresAt })\<close>\<close>

definition RefreshToken_create :: "Env \<Rightarrow> string \<Rightarrow> digest \<Rightarrow> string \<Rightarrow> int \<Rightarrow> RefreshToken" where
  "RefreshToken_create env uid h fam expires =
     \<lparr>rt_id = env_rowId env, rt_userId = uid, rt_tokenHash = h, rt_tokenFamily = fam,
      rt_expiresAt = expires, rt_revokedAt = None, rt_createdAt = env_now env\<rparr>"

text \<open>
  A \<^verbatim>\<open>findOne\<close> without an order returns \<open>null\<close> when no row matches and otherwise one
  of the matching rows, any of them: the \<open>k\<close>-th, counted cyclically, for the number \<open>k\<close>
  the call draws. Every matching row is returned for some \<open>k\<close>, and only matching rows are.
\<close>

definition pick_row :: "nat \<Rightarrow> 'a list \<Rightarrow> 'a option" where
  "pick_row k ms = (if ms = [] then None else Some (ms ! (k mod length ms)))"

text \<open>\<^verbatim>\<open>RefreshToken.findOne({ where: { tokenHash, userId: payload.userId } })\<close>\<close>

definition RefreshToken_findOne :: "Env \<Rightarrow> DB \<Rightarrow> digest \<Rightarrow> string \<Rightarrow> RefreshToken option" where
  "RefreshToken_findOne env db h uid =
     pick_row (env_pick env)
       (filter (\<lambda>t. rt_tokenHash t = h \<and> rt_userId t = uid) (refresh_tokens db))"

text \<open>
  \<^verbatim>\<open>RefreshToken.update({ revokedAt: new Date() }, { where: { tokenFamily } })\<close>
\<close>

definition revokeFamily :: "int \<Rightarrow> string \<Rightarrow> RefreshToken list \<Rightarrow> RefreshToken list" where
  "revokeFamily now fam rows =
     map (\<lambda>t. if rt_tokenFamily t = fam then t\<lparr>rt_revokedAt := Some now\<rparr> else t) rows"

text \<open>\<^verbatim>\<open>storedToken.update({ revokedAt: new Date() })\<close>: an update by primary key.\<close>

definition revokeById :: "int \<Rightarrow> string \<Rightarrow> RefreshToken list \<Rightarrow> RefreshToken list" where
  "revokeById now rid rows =
     map (\<lambda>t. if rt_id t = rid then t\<lparr>rt_revokedAt := Some now\<rparr> else t) rows"

text \<open>
  \<^verbatim>\<open>RefreshToken.update({ revokedAt: new Date() }, { where: { userId, revokedAt: null } })\<close>
\<close>

definition revokeAllForUser :: "int \<Rightarrow> string \<Rightarrow> RefreshToken list \<Rightarrow> RefreshToken list" where
  "revokeAllForUser now uid rows =
     map (\<lambda>t. if rt_userId t = uid \<and> rt_revokedAt t = None then t\<lparr>rt_revokedAt := Some now\<rparr> else t)
       rows"

text \<open>
  \<^verbatim>\<open>PasswordReset.findOne({ where: { tokenHash, usedAt: null } })\<close>. A reset token is a
  fresh random string (\<^verbatim>\<open>generateRandomToken\<close>), one row per token.
\<close>

definition PasswordReset_findOne :: "DB \<Rightarrow> digest \<Rightarrow> PasswordReset option" where
  "PasswordReset_findOne db h =
     find (\<lambda>r. pr_tokenHash r = h \<and> pr_usedAt r = None) (password_resets db)"

section \<open>AuthService (src/services/AuthService.ts)\<close>

record TokenRefreshResponse =
  accessToken :: token
  refreshToken :: token
  tokenType :: string
  expiresIn :: int

record LoginResponse = TokenRefreshResponse +
  user :: UserPublic

text \<open>
  Every operation takes the store and returns its result together with the store it
  leaves behind: an error thrown after a write keeps the write. The several
  \<^verbatim>\<open>new Date()\<close> of one call are one instant, \<open>env_now\<close>.

  \<open>login\<close>: look the user up by email among the active users; compare the password;
  mint a token pair in a new family; record the refresh token's hash; stamp the last login.
\<close>

definition login ::
  "Deps \<Rightarrow> Config \<Rightarrow> Env \<Rightarrow> DB \<Rightarrow> string \<Rightarrow> string \<Rightarrow> (error + LoginResponse) \<times> DB" where
  "login deps cfg env db email password =
     (case User_findOne_active_email db email of
        None \<Rightarrow> (Inl (AppError ''Invalid email or password'' 401 ''INVALID_CREDENTIALS''), db)
      | Some u \<Rightarrow>
          if \<not> verifyPassword deps password (user_passwordHash u) then
            (Inl (AppError ''Invalid email or password'' 401 ''INVALID_CREDENTIALS''), db)
          else
            (case generateTokenPair cfg env (user_id u) (user_email u) (user_role u)
                    (user_fleetId u) (ownedRegulatorIdsOf db u) None of
               Inl e \<Rightarrow> (Inl e, db)
             | Inr tp \<Rightarrow>
                 (let row = RefreshToken_create env (user_id u) (hashToken (tp_refreshToken tp))
                              (tp_tokenFamily tp) (tp_refreshTokenExpiresAt tp);
                      u' = u\<lparr>user_lastLoginAt := Some (env_now env), user_updatedAt := env_now env\<rparr>;
                      db' = db\<lparr>refresh_tokens := refresh_tokens db @ [row],
                               users := map (\<lambda>x. if user_id x = user_id u
                                                   then x\<lparr>user_lastLoginAt := Some (env_now env),
                                                          user_updatedAt := env_now env\<rparr>
                                                   else x) (users db)\<rparr>
                  in (Inr \<lparr>accessToken = tp_accessToken tp, refreshToken = tp_refreshToken tp,
                           tokenType = ''Bearer'', expiresIn = tp_accessTokenExpiresIn tp,
                           user = toPublic u'\<rparr>, db'))))"

text \<open>
  \<open>logout\<close>:
  \<^verbatim>\<open>
  const token = await RefreshToken.findOne({ where: { userId, tokenHash, revokedAt: null } });
  if (token) await token.update({ revokedAt: new Date() });\<close>
\<close>

definition logout :: "Env \<Rightarrow> DB \<Rightarrow> string \<Rightarrow> token \<Rightarrow> DB" where
  "logout env db uid tok =
     (case pick_row (env_pick env)
             (filter (\<lambda>t. rt_userId t = uid \<and> rt_tokenHash t = hashToken tok \<and> rt_revokedAt t = None)
                (refresh_tokens db)) of
        None \<Rightarrow> db
      | Some t \<Rightarrow> db\<lparr>refresh_tokens := revokeById (env_now env) (rt_id t) (refresh_tokens db)\<rparr>)"

text \<open>
  \<open>refreshTokens\<close>, in the order of the source: verify the token (any failure is
  \<open>INVALID_REFRESH_TOKEN\<close>); look a ledger entry up by hash and the payload's user id;
  not found; already revoked: revoke the whole family, then fail; past expiry; user missing
  or inactive; otherwise revoke the entry, mint a pair in the same family, record the new
  entry.
\<close>

definition refreshTokens ::
  "Config \<Rightarrow> Env \<Rightarrow> DB \<Rightarrow> token \<Rightarrow> (error + TokenRefreshResponse) \<times> DB" where
  "refreshTokens cfg env db tok =
     (case verifyRefreshToken cfg tok (env_now env) of
        Inl e \<Rightarrow> (Inl (AppError ''Invalid or expired refresh token'' 401 ''INVALID_REFRESH_TOKEN''), db)
      | Inr payload \<Rightarrow>
     (case RefreshToken_findOne env db (hashToken tok) (claims_userId payload) of
        None \<Rightarrow> (Inl (AppError ''Refresh token not found'' 401 ''INVALID_REFRESH_TOKEN''), db)
      | Some storedToken \<Rightarrow>
          if rt_revokedAt storedToken \<noteq> None then
            (Inl (AppError ''Refresh token has been revoked'' 403 ''TOKEN_REVOKED''),
             db\<lparr>refresh_tokens :=
                  revokeFamily (env_now env) (rt_tokenFamily storedToken) (refresh_tokens db)\<rparr>)
          else if rt_expiresAt storedToken < env_now env then
            (Inl (AppError ''Refresh token has expired'' 401 ''TOKEN_EXPIRED''), db)
          else
            (case User_findByPk db (claims_userId payload) of
               None \<Rightarrow> (Inl (AppError ''User not found or inactive'' 401 ''USER_NOT_FOUND''), db)
             | Some u \<Rightarrow>
                 if \<not> user_isActive u then
                   (Inl (AppError ''User not found or inactive'' 401 ''USER_NOT_FOUND''), db)
                 else
                   (let db1 = db\<lparr>refresh_tokens :=
                                   revokeById (env_now env) (rt_id storedToken) (refresh_tokens db)\<rparr> in
                    case generateTokenPair cfg env (user_id u) (user_email u) (user_role u)
                           (user_fleetId u) (ownedRegulatorIdsOf db u)
                           (Some (rt_tokenFamily storedToken)) of
                      Inl e \<Rightarrow> (Inl e, db1)
                    | Inr tp \<Rightarrow>
                        (let row = RefreshToken_create env (user_id u)
                                     (hashToken (tp_refreshToken tp)) (tp_tokenFamily tp)
                                     (tp_refreshTokenExpiresAt tp)
                         in (Inr \<lparr>accessToken = tp_accessToken tp,
                                  refreshToken = tp_refreshToken tp,
                                  tokenType = ''Bearer'',
                                  expiresIn = tp_accessTokenExpiresIn tp\<rparr>,
                             db1\<lparr>refresh_tokens := refresh_tokens db1 @ [row]\<rparr>))))))"

text \<open>
  \<open>resetPassword\<close>: find the unused reset record by the hash of the presented token;
  reject an expired record; check the password policy; store the new hash; mark the record
  used; revoke every refresh token of the user that is not yet revoked.
\<close>

definition resetPassword ::
  "Deps \<Rightarrow> Env \<Rightarrow> DB \<Rightarrow> token \<Rightarrow> string \<Rightarrow> (error + string) \<times> DB" where
  "resetPassword deps env db tok newPassword =
     (case PasswordReset_findOne db (hashToken tok) of
        None \<Rightarrow> (Inl (AppError ''Invalid or expired reset token'' 400 ''INVALID_RESET_TOKEN''), db)
      | Some resetRecord \<Rightarrow>
          if pr_expiresAt resetRecord < env_now env then
            (Inl (AppError ''Reset token has expired'' 400 ''TOKEN_EXPIRED''), db)
          else
            (let passwordValidation = validatePasswordStrength newPassword in
             if \<not> valid passwordValidation then
               (Inl (AppError (join ''. '' (errors passwordValidation)) 422 ''WEAK_PASSWORD''), db)
             else
               (let passwordHash = hashPassword deps newPassword;
                    db1 = db\<lparr>users :=
                            map (\<lambda>u. if user_id u = pr_userId resetRecord \<and> user_deletedAt u = None
                                      then u\<lparr>user_passwordHash := passwordHash,
                                             user_updatedAt := env_now env\<rparr>
                                      else u) (users db)\<rparr>;
                    db2 = db1\<lparr>password_resets :=
                            map (\<lambda>r. if pr_id r = pr_id resetRecord
                                      then r\<lparr>pr_usedAt := Some (env_now env)\<rparr> else r)
                              (password_resets db1)\<rparr>;
                    db3 = db2\<lparr>refresh_tokens :=
                            revokeAllForUser (env_now env) (pr_userId resetRecord)
                              (refresh_tokens db2)\<rparr>
                in (Inr ''Password reset successful'', db3))))"

text \<open>
  Well-formedness of the ledger, the shape of every ledger the service writes: an entry
  stores the hash of a refresh token and is filed under the family that token carries, a
  non-empty one; and a family has at most one entry that is not revoked (login opens a
  family with one entry, rotation revokes one entry and adds one).
\<close>

fun digest_family :: "digest \<Rightarrow> string option" where
  "digest_family (SHA256 (Jwt (RefreshBody s u fam) i e k)) = Some fam"
| "digest_family (SHA256 (Jwt (AccessBody s u r f owned j) i e k)) = None"
| "digest_family (SHA256 (Opaque s)) = None"

definition entry_wf :: "RefreshToken \<Rightarrow> bool" where
  "entry_wf t =
     (rt_tokenFamily t \<noteq> [] \<and> digest_family (rt_tokenHash t) = Some (rt_tokenFamily t))"

definition live_families :: "RefreshToken list \<Rightarrow> string list" where
  "live_families rows = map rt_tokenFamily (filter (\<lambda>t. rt_revokedAt t = None) rows)"

definition ledger_wf :: "DB \<Rightarrow> bool" where
  "ledger_wf db =
     (list_all entry_wf (refresh_tokens db) \<and> distinct (live_families (refresh_tokens db)))"

subsection \<open>Sequences of service calls\<close>

text \<open>
  One call of a method of \<^verbatim>\<open>AuthService\<close> that writes the refresh-token table, seen as a
  step between database states. \<^verbatim>\<open>register\<close>, \<^verbatim>\<open>forgotPassword\<close> and \<^verbatim>\<open>changePassword\<close> do
  not touch that table.
\<close>

inductive service_step :: "DB \<Rightarrow> DB \<Rightarrow> bool" where
  step_login: "service_step db (snd (login deps cfg env db email password))"
| step_refresh: "service_step db (snd (refreshTokens cfg env db tok))"
| step_logout: "service_step db (logout env db uid tok)"
| step_reset: "service_step db (snd (resetPassword deps env db tok newPassword))"

text \<open>A row update that changes at most \<^verbatim>\<open>revokedAt\<close>, and only to a date.\<close>

definition only_revokes :: "(RefreshToken \<Rightarrow> RefreshToken) \<Rightarrow> bool" where
  "only_revokes f = (\<forall>t. f t = t \<or> (\<exists>v. f t = t\<lparr>rt_revokedAt := Some v\<rparr>))"

text \<open>The ledger rows that store the hash of a given token.\<close>

definition entries_of :: "DB \<Rightarrow> token \<Rightarrow> RefreshToken list" where
  "entries_of db tok = filter (\<lambda>t. rt_tokenHash t = hashToken tok) (refresh_tokens db)"
section \<open>Realtime hub (src/websocket/WebSocketService.ts)\<close>

text \<open>
  A message reaches the hub as text and goes through \<^verbatim>\<open>JSON.parse\<close>, whose result is
  untyped: the annotation \<^verbatim>\<open>payload: { channel: string; fleetId?: string; regulatorId?:
  string }\<close> of \<open>handleSubscribe\<close> is not checked at run time. The identifiers of a payload
  are therefore JSON scalars (\<open>jsval\<close>; numbers are integers here, arrays and objects are
  left out), an absent field is \<open>None\<close>, and the keys of the two subscription maps are the
  values that were passed in: a JavaScript \<open>Map\<close> compares keys without conversion, so the
  number \<open>5\<close> and the string \<open>"5"\<close> are different keys.
\<close>

datatype jsval = JString string | JNumber int | JBoolean bool | JNull

definition digit_char :: "nat \<Rightarrow> char" where
  "digit_char d = ''0123456789'' ! d"

function string_of_nat :: "nat \<Rightarrow> string" where
  "string_of_nat n =
     (if n < 10 then [digit_char n] else string_of_nat (n div 10) @ [digit_char (n mod 10)])"
  by pat_completeness auto
termination
  by (relation "measure id") auto

declare string_of_nat.simps [simp del]

definition string_of_int :: "int \<Rightarrow> string" where
  "string_of_int i =
     (if i < 0 then CHR ''-'' # string_of_nat (nat (- i)) else string_of_nat (nat i))"

text \<open>The conversion a template literal \<^verbatim>\<open>`${v}`\<close> applies.\<close>

fun js_to_string :: "jsval option \<Rightarrow> string" where
  "js_to_string None = ''undefined''"
| "js_to_string (Some (JString s)) = s"
| "js_to_string (Some (JNumber n)) = string_of_int n"
| "js_to_string (Some (JBoolean b)) = (if b then ''true'' else ''false'')"
| "js_to_string (Some JNull) = ''null''"

text \<open>JavaScript truthiness, as in \<^verbatim>\<open>channel === 'fleet' && fleetId\<close>.\<close>

fun truthy :: "jsval option \<Rightarrow> bool" where
  "truthy None = False"
| "truthy (Some (JString s)) = (s \<noteq> [])"
| "truthy (Some (JNumber n)) = (n \<noteq> 0)"
| "truthy (Some (JBoolean b)) = b"
| "truthy (Some JNull) = False"

text \<open>Strict equality \<^verbatim>\<open>user.fleetId === fleetId\<close> of a \<^verbatim>\<open>string | null\<close> with a JSON scalar.\<close>

fun js_eq_str :: "string option \<Rightarrow> jsval \<Rightarrow> bool" where
  "js_eq_str (Some s) (JString s') = (s = s')"
| "js_eq_str None JNull = True"
| "js_eq_str _ _ = False"

text \<open>
  \<^verbatim>\<open>String.prototype.startsWith\<close>, and \<^verbatim>\<open>String.prototype.replace\<close> with a string pattern,
  which replaces the first occurrence only.
\<close>

definition startsWith :: "string \<Rightarrow> string \<Rightarrow> bool" where
  "startsWith s pat = (take (length pat) s = pat)"

fun replace_first :: "string \<Rightarrow> string \<Rightarrow> string \<Rightarrow> string" where
  "replace_first [] pat rep = (if pat = [] then rep else [])"
| "replace_first (c # cs) pat rep =
     (if startsWith (c # cs) pat then rep @ drop (length pat) (c # cs)
      else c # replace_first cs pat rep)"

record sub_payload =
  channel :: "jsval option"
  p_fleetId :: "jsval option"
  p_regulatorId :: "jsval option"

text \<open>
  The events the hub sends to a connection (the timestamp is left out):
  \<open>CONNECTED clientId userId role subscriptions\<close>, the acknowledgements, \<open>PONG\<close> and
  \<open>ERROR message\<close>.
\<close>

datatype ws_event =
    ERROR string
  | CONNECTED string string "UserRole option" "string list"
  | SUBSCRIBED sub_payload
  | UNSUBSCRIBED sub_payload
  | PONG

text \<open>
  \<^verbatim>\<open>interface WebSocketClient\<close>: the connection id, the verified claims, the set of
  subscription keys (in insertion order, as a JavaScript \<open>Set\<close> iterates), the liveness
  flag; \<open>sent\<close> collects what was sent on the socket and \<open>closed\<close> the close code.
\<close>

record WebSocketClient =
  ws_id :: string
  ws_user :: "claims option"
  subscriptions :: "string list"
  isAlive :: bool
  sent :: "ws_event list"
  closed :: "(nat \<times> string) option"

text \<open>
  The service's three maps. \<open>clients\<close> holds the connection objects; a handler that
  changes the object it was given returns the changed object, and the dispatcher stores
  it back under its id.
\<close>

record WebSocketService =
  clients :: "string \<rightharpoonup> WebSocketClient"
  fleetSubscriptions :: "jsval \<rightharpoonup> string set"
  regulatorSubscriptions :: "jsval \<rightharpoonup> string set"

definition hub_empty :: WebSocketService where
  "hub_empty = \<lparr>clients = Map.empty, fleetSubscriptions = Map.empty,
                regulatorSubscriptions = Map.empty\<rparr>"

definition send :: "WebSocketClient \<Rightarrow> ws_event \<Rightarrow> WebSocketClient" where
  "send client ev = client\<lparr>sent := sent client @ [ev]\<rparr>"

text \<open>\<^verbatim>\<open>Set.prototype.add\<close> and \<^verbatim>\<open>Set.prototype.delete\<close> on the subscription keys.\<close>

definition set_add :: "string \<Rightarrow> string list \<Rightarrow> string list" where
  "set_add k ks = (if k \<in> set ks then ks else ks @ [k])"

definition set_delete :: "string \<Rightarrow> string list \<Rightarrow> string list" where
  "set_delete k ks = filter (\<lambda>x. x \<noteq> k) ks"

text \<open>
  \<^verbatim>\<open>
  private subscribeToFleet(client, fleetId) {
    const subKey = `fleet:${fleetId}`;
    client.subscriptions.add(subKey);
    if (!this.fleetSubscriptions.has(fleetId)) this.fleetSubscriptions.set(fleetId, new Set());
    this.fleetSubscriptions.get(fleetId)!.add(client.id);
  }\<close>
\<close>

definition subscribeToFleet ::
  "WebSocketClient \<Rightarrow> jsval \<Rightarrow> WebSocketService \<Rightarrow> WebSocketClient \<times> WebSocketService" where
  "subscribeToFleet client fid hub =
     (let subKey = ''fleet:'' @ js_to_string (Some fid);
          client' = client\<lparr>subscriptions := set_add subKey (subscriptions client)\<rparr>;
          subscribers = (case fleetSubscriptions hub fid of None \<Rightarrow> {} | Some S \<Rightarrow> S)
      in (client', hub\<lparr>fleetSubscriptions :=
                        (fleetSubscriptions hub)(fid \<mapsto> insert (ws_id client) subscribers)\<rparr>))"

text \<open>
  \<^verbatim>\<open>
  private unsubscribeFromFleet(client, fleetId) {
    const subKey = `fleet:${fleetId}`;
    client.subscriptions.delete(subKey);
    const subscribers = this.fleetSubscriptions.get(fleetId);
    if (subscribers) {
      subscribers.delete(client.id);
      if (subscribers.size === 0) this.fleetSubscriptions.delete(fleetId);
    }
  }\<close>
\<close>

definition unsubscribeFromFleet ::
  "WebSocketClient \<Rightarrow> jsval \<Rightarrow> WebSocketService \<Rightarrow> WebSocketClient \<times> WebSocketService" where
  "unsubscribeFromFleet client fid hub =
     (let subKey = ''fleet:'' @ js_to_string (Some fid);
          client' = client\<lparr>subscriptions := set_delete subKey (subscriptions client)\<rparr>
      in case fleetSubscriptions hub fid of
           None \<Rightarrow> (client', hub)
         | Some subscribers \<Rightarrow>
             (let subscribers' = subscribers - {ws_id client} in
              if subscribers' = {} then
                (client', hub\<lparr>fleetSubscriptions := (fleetSubscriptions hub)(fid := None)\<rparr>)
              else
                (client', hub\<lparr>fleetSubscriptions := (fleetSubscriptions hub)(fid \<mapsto> subscribers')\<rparr>)))"

definition subscribeToRegulator ::
  "WebSocketClient \<Rightarrow> jsval \<Rightarrow> WebSocketService \<Rightarrow> WebSocketClient \<times> WebSocketService" where
  "subscribeToRegulator client rid hub =
     (let subKey = ''regulator:'' @ js_to_string (Some rid);
          client' = client\<lparr>subscriptions := set_add subKey (subscriptions client)\<rparr>;
          subscribers = (case regulatorSubscriptions hub rid of None \<Rightarrow> {} | Some S \<Rightarrow> S)
      in (client', hub\<lparr>regulatorSubscriptions :=
                        (regulatorSubscriptions hub)(rid \<mapsto> insert (ws_id client) subscribers)\<rparr>))"

definition unsubscribeFromRegulator ::
  "WebSocketClient \<Rightarrow> jsval \<Rightarrow> WebSocketService \<Rightarrow> WebSocketClient \<times> WebSocketService" where
  "unsubscribeFromRegulator client rid hub =
     (let subKey = ''regulator:'' @ js_to_string (Some rid);
          client' = client\<lparr>subscriptions := set_delete subKey (subscriptions client)\<rparr>
      in case regulatorSubscriptions hub rid of
           None \<Rightarrow> (client', hub)
         | Some subscribers \<Rightarrow>
             (let subscribers' = subscribers - {ws_id client} in
              if subscribers' = {} then
                (client', hub\<lparr>regulatorSubscriptions := (regulatorSubscriptions hub)(rid := None)\<rparr>)
              else
                (client', hub\<lparr>regulatorSubscriptions :=
                                 (regulatorSubscriptions hub)(rid \<mapsto> subscribers')\<rparr>)))"

text \<open>
  \<^verbatim>\<open>
  private canSubscribeToFleet(user: JwtPayload, fleetId: string): boolean {
    if (user.role === UserRole.ADMIN || user.role === UserRole.SUB_ADMIN) return true;
    if ([UserRole.FLEET_MGR, UserRole.SUB_FLEET_MGR, UserRole.FLEET_USER].includes(user.role))
      return user.fleetId === fleetId;
    return false;
  }\<close>
  A payload without a role (refresh claims) matches no branch.
\<close>

fun canSubscribeToFleet :: "claims \<Rightarrow> jsval \<Rightarrow> bool" where
  "canSubscribeToFleet (AccessClaims u) fid =
     (if role u = ADMIN \<or> role u = SUB_ADMIN then True
      else if role u \<in> set [FLEET_MGR, SUB_FLEET_MGR, FLEET_USER] then js_eq_str (fleetId u) fid
      else False)"
| "canSubscribeToFleet (RefreshClaims p) fid = False"

text \<open>
  \<^verbatim>\<open>
  private handleSubscribe(client, payload) {
    if (!client.user) return;
    const { channel, fleetId, regulatorId } = payload;
    if (channel === 'fleet' && fleetId) {
      // Check authorization
      if (!this.canSubscribeToFleet(client.user, fleetId)) {
        client.send(JSON.stringify({ type: 'ERROR',
          payload: { message: 'Not authorized to subscribe to this fleet' }, ... }));
        return;
      }
      this.subscribeToFleet(client, fleetId);
    } else if (channel === 'regulator' && regulatorId) {
      // Check authorization would go here
      this.subscribeToRegulator(client, regulatorId);
    }
    client.send(JSON.stringify({ type: 'SUBSCRIBED', payload: { channel, fleetId, regulatorId }, ... }));
  }\<close>
  Destructuring an absent payload throws a \<open>TypeError\<close>, which \<open>handleMessage\<close> catches.
\<close>

definition handleSubscribe ::
  "WebSocketClient \<Rightarrow> sub_payload option \<Rightarrow> WebSocketService
   \<Rightarrow> error + (WebSocketClient \<times> WebSocketService)" where
  "handleSubscribe client payload hub =
     (case ws_user client of
        None \<Rightarrow> Inr (client, hub)
      | Some u \<Rightarrow>
          (case payload of
             None \<Rightarrow> Inl (Error ''TypeError'')
           | Some p \<Rightarrow>
               if channel p = Some (JString ''fleet'') \<and> truthy (p_fleetId p) then
                 (if \<not> canSubscribeToFleet u (the (p_fleetId p)) then
                    Inr (send client (ERROR ''Not authorized to subscribe to this fleet''), hub)
                  else
                    (let (client1, hub1) = subscribeToFleet client (the (p_fleetId p)) hub
                     in Inr (send client1 (SUBSCRIBED p), hub1)))
               else if channel p = Some (JString ''regulator'') \<and> truthy (p_regulatorId p) then
                 (let (client1, hub1) = subscribeToRegulator client (the (p_regulatorId p)) hub
                  in Inr (send client1 (SUBSCRIBED p), hub1))
               else Inr (send client (SUBSCRIBED p), hub)))"

definition handleUnsubscribe ::
  "WebSocketClient \<Rightarrow> sub_payload option \<Rightarrow> WebSocketService
   \<Rightarrow> error + (WebSocketClient \<times> WebSocketService)" where
  "handleUnsubscribe client payload hub =
     (case payload of
        None \<Rightarrow> Inl (Error ''TypeError'')
      | Some p \<Rightarrow>
          if channel p = Some (JString ''fleet'') \<and> truthy (p_fleetId p) then
            (let (client1, hub1) = unsubscribeFromFleet client (the (p_fleetId p)) hub
             in Inr (send client1 (UNSUBSCRIBED p), hub1))
          else if channel p = Some (JString ''regulator'') \<and> truthy (p_regulatorId p) then
            (let (client1, hub1) = unsubscribeFromRegulator client (the (p_regulatorId p)) hub
             in Inr (send client1 (UNSUBSCRIBED p), hub1))
          else Inr (send client (UNSUBSCRIBED p), hub))"

text \<open>
  \<^verbatim>\<open>
  private handleDisconnect(client) {
    // Remove from all subscriptions
    client.subscriptions.forEach((sub) => {
      if (sub.startsWith('fleet:')) {
        const fleetId = sub.replace('fleet:', '');
        this.unsubscribeFromFleet(client, fleetId);
      } else if (sub.startsWith('regulator:')) {
        const regulatorId = sub.replace('regulator:', '');
        this.unsubscribeFromRegulator(client, regulatorId);
      }
    });
    this.clients.delete(client.id);
  }\<close>
  Each step of the loop deletes from \<open>client.subscriptions\<close> only the key it is visiting
  (the key is rebuilt from the id that was cut out of it), so the loop visits every key
  the set held at the start; it is a fold over that list.
\<close>

definition unwind_one ::
  "string \<Rightarrow> WebSocketClient \<times> WebSocketService \<Rightarrow> WebSocketClient \<times> WebSocketService" where
  "unwind_one subKey st =
     (if startsWith subKey ''fleet:'' then
        unsubscribeFromFleet (fst st) (JString (replace_first subKey ''fleet:'' [])) (snd st)
      else if startsWith subKey ''regulator:'' then
        unsubscribeFromRegulator (fst st) (JString (replace_first subKey ''regulator:'' [])) (snd st)
      else st)"

definition handleDisconnect ::
  "WebSocketClient \<Rightarrow> WebSocketService \<Rightarrow> WebSocketClient \<times> WebSocketService" where
  "handleDisconnect client hub =
     (let (client1, hub1) = fold unwind_one (subscriptions client) (client, hub)
      in (client1, hub1\<lparr>clients := (clients hub1)(ws_id client := None)\<rparr>))"

text \<open>
  \<^verbatim>\<open>
  private autoSubscribe(client) {
    if (!client.user) return;
    const { role, fleetId } = client.user;
    if (fleetId && [UserRole.FLEET_MGR, UserRole.SUB_FLEET_MGR, UserRole.FLEET_USER].includes(role))
      this.subscribeToFleet(client, fleetId);
  }\<close>
\<close>

definition autoSubscribe ::
  "WebSocketClient \<Rightarrow> WebSocketService \<Rightarrow> WebSocketClient \<times> WebSocketService" where
  "autoSubscribe client hub =
     (case ws_user client of
        None \<Rightarrow> (client, hub)
      | Some (RefreshClaims p) \<Rightarrow> (client, hub)
      | Some (AccessClaims u) \<Rightarrow>
          if truthy_str (fleetId u) \<and> role u \<in> set [FLEET_MGR, SUB_FLEET_MGR, FLEET_USER] then
            subscribeToFleet client (JString (the (fleetId u))) hub
          else (client, hub))"

text \<open>
  The \<open>connection\<close> handler of \<open>initialize\<close>: a new client object with a fresh id; no
  token (absent or empty): \<open>ERROR\<close> and close code 4001; a token that does not verify:
  \<open>ERROR\<close> and close code 4002; otherwise the client is registered, auto-subscribed and
  told \<open>CONNECTED\<close>.
\<close>

definition onConnection ::
  "Config \<Rightarrow> int \<Rightarrow> string \<Rightarrow> token option \<Rightarrow> WebSocketService
   \<Rightarrow> WebSocketClient \<times> WebSocketService" where
  "onConnection cfg now uuid tokenParam hub =
     (let client = \<lparr>ws_id = uuid, ws_user = None, subscriptions = [], isAlive = True,
                    sent = [], closed = None\<rparr> in
      if tokenParam = None \<or> tokenParam = Some (Opaque []) then
        ((send client (ERROR ''Authentication required''))
            \<lparr>closed := Some (4001, ''Authentication required'')\<rparr>, hub)
      else
        (case verifyAccessToken cfg (the tokenParam) now of
           Inl e \<Rightarrow>
             ((send client (ERROR ''Invalid or expired token''))
                 \<lparr>closed := Some (4002, ''Invalid token'')\<rparr>, hub)
         | Inr payload \<Rightarrow>
             (let client1 = client\<lparr>ws_user := Some payload\<rparr>;
                  hub1 = hub\<lparr>clients := (clients hub)(uuid \<mapsto> client1)\<rparr>;
                  (client2, hub2) = autoSubscribe client1 hub1;
                  client3 = send client2 (CONNECTED uuid (claims_userId payload)
                              (claims_role payload) (subscriptions client2))
              in (client3, hub2\<lparr>clients := (clients hub2)(uuid \<mapsto> client3)\<rparr>))))"

text \<open>
  An incoming message after \<^verbatim>\<open>JSON.parse\<close>: text that does not parse (or parses to
  \<open>null\<close>), or an object with its \<open>type\<close> and \<open>payload\<close> fields.
\<close>

datatype client_message = Unparseable | Message "jsval option" "sub_payload option"

definition handleMessage ::
  "WebSocketClient \<Rightarrow> client_message \<Rightarrow> WebSocketService \<Rightarrow> WebSocketClient \<times> WebSocketService" where
  "handleMessage client msg hub =
     (case msg of
        Unparseable \<Rightarrow> (send client (ERROR ''Invalid message format''), hub)
      | Message ty payload \<Rightarrow>
          if ty = Some (JString ''SUBSCRIBE'') then
            (case handleSubscribe client payload hub of
               Inl e \<Rightarrow> (send client (ERROR ''Invalid message format''), hub)
             | Inr r \<Rightarrow> r)
          else if ty = Some (JString ''UNSUBSCRIBE'') then
            (case handleUnsubscribe client payload hub of
               Inl e \<Rightarrow> (send client (ERROR ''Invalid message format''), hub)
             | Inr r \<Rightarrow> r)
          else if ty = Some (JString ''PING'') then (send client PONG, hub)
          else (send client (ERROR (''Unknown message type: '' @ js_to_string ty)), hub))"

text \<open>
  The wiring \<^verbatim>\<open>client.on('message', ...)\<close> and \<^verbatim>\<open>client.on('close', ...)\<close> for a
  registered connection.
\<close>

definition on_message :: "WebSocketService \<Rightarrow> string \<Rightarrow> client_message \<Rightarrow> WebSocketService" where
  "on_message hub cid msg =
     (case clients hub cid of
        None \<Rightarrow> hub
      | Some client \<Rightarrow>
          (let (client', hub') = handleMessage client msg hub
           in hub'\<lparr>clients := (clients hub')(cid \<mapsto> client')\<rparr>))"

definition on_close :: "WebSocketService \<Rightarrow> string \<Rightarrow> WebSocketService" where
  "on_close hub cid =
     (case clients hub cid of
        None \<Rightarrow> hub
      | Some client \<Rightarrow> snd (handleDisconnect client hub))"

text \<open>
  The bookkeeping the hub is meant to keep. \<open>subs_of m k\<close> is the subscriber set of channel
  \<open>k\<close> (empty when the map has no entry). \<open>hub_inv\<close>: every registered client is filed under
  its own id, and whoever is in the subscriber set of a channel is a registered client,
  the channel's key is a string, and the client's own subscription set holds the matching
  key \<open>fleet:<id>\<close> or \<open>regulator:<id>\<close>.
\<close>

definition subs_of :: "(jsval \<rightharpoonup> string set) \<Rightarrow> jsval \<Rightarrow> string set" where
  "subs_of m k = (case m k of None \<Rightarrow> {} | Some S \<Rightarrow> S)"

definition hub_inv :: "WebSocketService \<Rightarrow> bool" where
  "hub_inv hub =
     ((\<forall>c cl. clients hub c = Some cl \<longrightarrow> ws_id cl = c)
    \<and> (\<forall>k c. c \<in> subs_of (fleetSubscriptions hub) k \<longrightarrow>
          (\<exists>s cl. k = JString s \<and> clients hub c = Some cl \<and> ''fleet:'' @ s \<in> set (subscriptions cl)))
    \<and> (\<forall>k c. c \<in> subs_of (regulatorSubscriptions hub) k \<longrightarrow>
          (\<exists>s cl. k = JString s \<and> clients hub c = Some cl
                 \<and> ''regulator:'' @ s \<in> set (subscriptions cl))))"

text \<open>
  A message whose fleet and device ids, when present, are strings, as the payload's type
  annotation says.
\<close>

fun is_string_or_absent :: "jsval option \<Rightarrow> bool" where
  "is_string_or_absent None = True"
| "is_string_or_absent (Some (JString s)) = True"
| "is_string_or_absent (Some v) = False"

fun typed_message :: "client_message \<Rightarrow> bool" where
  "typed_message Unparseable = True"
| "typed_message (Message ty None) = True"
| "typed_message (Message ty (Some p)) =
     (is_string_or_absent (p_fleetId p) \<and> is_string_or_absent (p_regulatorId p))"

text \<open>Two states of one connection object with the same id and subscription keys.\<close>

definition same_subs :: "WebSocketClient \<Rightarrow> WebSocketClient \<Rightarrow> bool" where
  "same_subs c c' = (ws_id c' = ws_id c \<and> subscriptions c' = subscriptions c)"

text \<open>
  The hub states that can be reached from the empty hub by connections with fresh ids,
  messages whose ids are strings, and disconnects.
\<close>

inductive reachable_typed :: "WebSocketService \<Rightarrow> bool" where
  start: "reachable_typed hub_empty"
| connect: "reachable_typed hub \<Longrightarrow> clients hub uuid = None
            \<Longrightarrow> reachable_typed (snd (onConnection cfg now uuid tokenParam hub))"
| message: "reachable_typed hub \<Longrightarrow> typed_message msg \<Longrightarrow> reachable_typed (on_message hub cid msg)"
| close: "reachable_typed hub \<Longrightarrow> reachable_typed (on_close hub cid)"

section \<open>A running example\<close>

text \<open>
  One user, Alice, a fleet manager of fleet F1. She logs in at second 1000, rotates her
  refresh token at second 500000, and the first token is presented again at second 600000
  (before its expiry at second 605800) or at second 700000 (after it). Where a lookup
  matches a single row the database's choice does not matter; it is 0 in these calls.
\<close>

definition ex_cfg :: Config where
  "ex_cfg = \<lparr>jwt_secret = ''s3cret'', accessTokenExpiry = ''15m'', refreshTokenExpiry = ''7d''\<rparr>"

definition ex_deps :: Deps where
  "ex_deps = \<lparr>verifyPassword = (\<lambda>plain h. h = ''bcrypt:'' @ plain),
              hashPassword = (\<lambda>plain. ''bcrypt:'' @ plain)\<rparr>"

definition ex_alice :: User where
  "ex_alice = \<lparr>user_id = ''u-alice'', user_email = ''alice@vmax.com'',
               user_passwordHash = ''bcrypt:StrongPass123!'', user_role = FLEET_MGR,
               user_fleetId = Some ''F1'', user_firstName = ''Alice'', user_lastName = ''Doe'',
               user_phoneNumber = None, user_isActive = True, user_createdAt = 0,
               user_updatedAt = 0, user_lastLoginAt = None, user_deletedAt = None\<rparr>"

definition ex_db0 :: DB where
  "ex_db0 = \<lparr>users = [ex_alice], refresh_tokens = [], password_resets = [], regulators = []\<rparr>"

definition ex_envLogin :: Env where
  "ex_envLogin = \<lparr>env_now = 1000000, env_jti = ''jti-1'', env_family = ''fam-1'',
                  env_rowId = ''row-1'', env_pick = 0\<rparr>"

definition ex_tokA :: token where
  "ex_tokA = Jwt (RefreshBody ''alice@vmax.com'' ''u-alice'' ''fam-1'') 1000 605800 ''s3cret''"

definition ex_payloadA :: claims where
  "ex_payloadA = RefreshClaims \<lparr>rp_sub = ''alice@vmax.com'', rp_userId = ''u-alice'',
                   rp_tokenFamily = ''fam-1'', rp_iat = 1000, rp_exp = 605800\<rparr>"

definition ex_rowA :: RefreshToken where
  "ex_rowA = \<lparr>rt_id = ''row-1'', rt_userId = ''u-alice'', rt_tokenHash = hashToken ex_tokA,
              rt_tokenFamily = ''fam-1'', rt_expiresAt = 605800000, rt_revokedAt = None,
              rt_createdAt = 1000000\<rparr>"

definition ex_aliceL :: User where
  "ex_aliceL = ex_alice\<lparr>user_lastLoginAt := Some 1000000, user_updatedAt := 1000000\<rparr>"

definition ex_dbA :: DB where
  "ex_dbA = \<lparr>users = [ex_aliceL], refresh_tokens = [ex_rowA], password_resets = [],
             regulators = []\<rparr>"


definition ex_tokB :: token where
  "ex_tokB = Jwt (RefreshBody ''alice@vmax.com'' ''u-alice'' ''fam-1'') 500000 1104800 ''s3cret''"

definition ex_rowB :: RefreshToken where
  "ex_rowB = \<lparr>rt_id = ''row-2'', rt_userId = ''u-alice'', rt_tokenHash = hashToken ex_tokB,
              rt_tokenFamily = ''fam-1'', rt_expiresAt = 1104800000, rt_revokedAt = None,
              rt_createdAt = 500000000\<rparr>"

definition ex_rowA' :: RefreshToken where
  "ex_rowA' = ex_rowA\<lparr>rt_revokedAt := Some 500000000\<rparr>"

definition ex_dbB :: DB where
  "ex_dbB = \<lparr>users = [ex_aliceL], refresh_tokens = [ex_rowA', ex_rowB], password_resets = [],
             regulators = []\<rparr>"





text \<open>A pending password reset for Alice, on top of the rotated ledger.\<close>

definition ex_resetToken :: token where
  "ex_resetToken = Opaque ''9f2c41d07ab3''"

definition ex_reset :: PasswordReset where
  "ex_reset = \<lparr>pr_id = ''pr-1'', pr_userId = ''u-alice'', pr_tokenHash = hashToken ex_resetToken,
               pr_expiresAt = 503600000, pr_usedAt = None, pr_createdAt = 500000000\<rparr>"

definition ex_dbR :: DB where
  "ex_dbR = ex_dbB\<lparr>password_resets := [ex_reset]\<rparr>"

definition ex_envReset :: Env where
  "ex_envReset = \<lparr>env_now = 501000000, env_jti = ''jti-5'', env_family = ''fam-5'',
                  env_rowId = ''row-5'', env_pick = 0\<rparr>"

text \<open>
  A second course of events: Alice refreshes 400 ms after her login, within second 1000,
  and presents the token again at second 2000.
\<close>

definition ex_envSame :: Env where
  "ex_envSame = \<lparr>env_now = 1000400, env_jti = ''jti-6'', env_family = ''fam-6'',
                 env_rowId = ''row-6'', env_pick = 0\<rparr>"

definition ex_rowS :: RefreshToken where
  "ex_rowS = \<lparr>rt_id = ''row-6'', rt_userId = ''u-alice'', rt_tokenHash = hashToken ex_tokA,
              rt_tokenFamily = ''fam-1'', rt_expiresAt = 605800400, rt_revokedAt = None,
              rt_createdAt = 1000400\<rparr>"

definition ex_dbS :: DB where
  "ex_dbS = \<lparr>users = [ex_aliceL],
             refresh_tokens = [ex_rowA\<lparr>rt_revokedAt := Some 1000400\<rparr>, ex_rowS],
             password_resets = [], regulators = []\<rparr>"

definition ex_respS :: TokenRefreshResponse where
  "ex_respS = \<lparr>accessToken = Jwt (AccessBody ''alice@vmax.com'' ''u-alice'' FLEET_MGR (Some ''F1'')
                                  [] ''jti-6'') 1000 1900 ''s3cret'',
               refreshToken = ex_tokA, tokenType = ''Bearer'', expiresIn = 900\<rparr>"

definition ex_envOlder :: Env where
  "ex_envOlder = \<lparr>env_now = 2000000, env_jti = ''jti-7'', env_family = ''fam-7'',
                  env_rowId = ''row-7'', env_pick = 0\<rparr>"

definition ex_envNewer :: Env where
  "ex_envNewer = ex_envOlder\<lparr>env_pick := 1\<rparr>"

text \<open>Two realtime connections: an administrator and a device-provisioning account.\<close>

definition ex_adminToken :: token where
  "ex_adminToken =
     Jwt (AccessBody ''admin@vmax.com'' ''u-admin'' ADMIN None [] ''jti-9'') 1000 1900 ''s3cret''"

definition ex_adminClaims :: claims where
  "ex_adminClaims = AccessClaims \<lparr>sub = ''admin@vmax.com'', userId = ''u-admin'', role = ADMIN,
      fleetId = None, ownedRegulatorIds = [], iat = 1000, exp = 1900, jti = ''jti-9''\<rparr>"

definition ex_subscribe5 :: sub_payload where
  "ex_subscribe5 = \<lparr>channel = Some (JString ''regulator''), p_fleetId = None,
                     p_regulatorId = Some (JNumber 5)\<rparr>"

definition ex_client1 :: WebSocketClient where
  "ex_client1 = \<lparr>ws_id = ''c1'', ws_user = Some ex_adminClaims, subscriptions = [],
      isAlive = True, sent = [CONNECTED ''c1'' ''u-admin'' (Some ADMIN) []], closed = None\<rparr>"

definition ex_hub1 :: WebSocketService where
  "ex_hub1 = \<lparr>clients = [''c1'' \<mapsto> ex_client1], fleetSubscriptions = Map.empty,
               regulatorSubscriptions = Map.empty\<rparr>"

definition ex_client2 :: WebSocketClient where
  "ex_client2 = ex_client1\<lparr>subscriptions := [''regulator:5''],
      sent := [CONNECTED ''c1'' ''u-admin'' (Some ADMIN) [], SUBSCRIBED ex_subscribe5]\<rparr>"

definition ex_hub2 :: WebSocketService where
  "ex_hub2 = \<lparr>clients = [''c1'' \<mapsto> ex_client2], fleetSubscriptions = Map.empty,
               regulatorSubscriptions = [JNumber 5 \<mapsto> {''c1''}]\<rparr>"

definition ex_onboarding :: JwtPayload where
  "ex_onboarding = \<lparr>sub = ''setup@vmax.com'', userId = ''u-onb'', role = ONBOARDING,
      fleetId = None, ownedRegulatorIds = [], iat = 1000, exp = 1900, jti = ''jti-8''\<rparr>"

definition ex_clientO :: WebSocketClient where
  "ex_clientO = \<lparr>ws_id = ''c2'', ws_user = Some (AccessClaims ex_onboarding), subscriptions = [],
      isAlive = True, sent = [CONNECTED ''c2'' ''u-onb'' (Some ONBOARDING) []], closed = None\<rparr>"

definition ex_hubO :: WebSocketService where
  "ex_hubO = \<lparr>clients = [''c2'' \<mapsto> ex_clientO], fleetSubscriptions = Map.empty,
               regulatorSubscriptions = Map.empty\<rparr>"

definition ex_subscribeR1 :: sub_payload where
  "ex_subscribeR1 = \<lparr>channel = Some (JString ''regulator''), p_fleetId = None,
                      p_regulatorId = Some (JString ''R1'')\<rparr>"

section \<open>Properties of the authorization predicates\<close>

text \<open>
  C4, as the code has it. \<open>canManageUser\<close> is true exactly when the actor is ADMIN, or the
  actor is FLEET_MGR, the target role is FLEET_USER or SUB_FLEET_MGR and the target fleet
  equals the actor's fleet scope. SUB_ADMIN is not granted user management. In particular a
  FLEET_MGR never manages an ADMIN target, whatever the fleets.
\<close>

theorem canManageUser_spec:
  "canManageUser actor targetRole targetFleet =
     (role actor = ADMIN
      \<or> (role actor = FLEET_MGR \<and> (targetRole = FLEET_USER \<or> targetRole = SUB_FLEET_MGR)
          \<and> targetFleet = fleetId actor))"
  by (auto simp: canManageUser_def)

text \<open>
  C4, counterexample to the claim as stated: a SUB_ADMIN actor (system-wide tier) is denied.
\<close>

theorem canManageUser_sub_admin_counterexample:
  "\<not> canManageUser
       \<lparr>sub = ''ops@vmax.com'', userId = ''u1'', role = SUB_ADMIN, fleetId = None,
        ownedRegulatorIds = [], iat = 0, exp = 900, jti = ''j1''\<rparr>
       FLEET_USER (Some ''F1'')"
  by (simp add: canManageUser_def)

text \<open>
  C5, as the code has it. \<open>canAccessFleet\<close> is true exactly when the actor is ADMIN or
  SUB_ADMIN, or the actor is FLEET_MGR or SUB_FLEET_MGR and its fleet scope equals the fleet
  asked for. FLEET_USER is not granted fleet access by this predicate.
\<close>

theorem canAccessFleet_spec:
  "canAccessFleet actor fid =
     (role actor = ADMIN \<or> role actor = SUB_ADMIN
      \<or> ((role actor = FLEET_MGR \<or> role actor = SUB_FLEET_MGR) \<and> fleetId actor = Some fid))"
  by (auto simp: canAccessFleet_def)

text \<open>
  C5, counterexample to the claim as stated: a FLEET_USER scoped to fleet F1 is denied
  access to F1.
\<close>

theorem canAccessFleet_fleet_user_counterexample:
  "\<not> canAccessFleet
       \<lparr>sub = ''staff@vmax.com'', userId = ''u2'', role = FLEET_USER, fleetId = Some ''F1'',
        ownedRegulatorIds = [], iat = 0, exp = 900, jti = ''j2''\<rparr>
       ''F1''"
  by (simp add: canAccessFleet_def)

section \<open>The password policy\<close>

lemma messages_distinct:
  "distinct [MSG_MIN_LENGTH, MSG_MAX_LENGTH, MSG_UPPERCASE, MSG_LOWERCASE, MSG_NUMBER, MSG_SPECIAL]"
  by (simp add: MSG_MIN_LENGTH_def MSG_MAX_LENGTH_def MSG_UPPERCASE_def MSG_LOWERCASE_def
      MSG_NUMBER_def MSG_SPECIAL_def)

lemma policy_valid_iff:
  "valid (validatePasswordStrength p) =
     (8 \<le> length p \<and> length p \<le> 128 \<and> list_ex isUpper p \<and> list_ex isLower p
      \<and> list_ex isDigit p \<and> list_ex isSpecial p)"
  by (auto simp: validatePasswordStrength_def Let_def)

lemma policy_valid_no_errors:
  "valid (validatePasswordStrength p) = (errors (validatePasswordStrength p) = [])"
  by (simp add: validatePasswordStrength_def Let_def)

lemma policy_errors_distinct: "distinct (errors (validatePasswordStrength p))"
  using messages_distinct by (simp add: validatePasswordStrength_def Let_def)

lemma policy_each_rule:
  "(MSG_MIN_LENGTH \<in> set (errors (validatePasswordStrength p))) = (length p < 8)"
  "(MSG_MAX_LENGTH \<in> set (errors (validatePasswordStrength p))) = (128 < length p)"
  "(MSG_UPPERCASE \<in> set (errors (validatePasswordStrength p))) = (\<not> list_ex isUpper p)"
  "(MSG_LOWERCASE \<in> set (errors (validatePasswordStrength p))) = (\<not> list_ex isLower p)"
  "(MSG_NUMBER \<in> set (errors (validatePasswordStrength p))) = (\<not> list_ex isDigit p)"
  "(MSG_SPECIAL \<in> set (errors (validatePasswordStrength p))) = (\<not> list_ex isSpecial p)"
  using messages_distinct by (auto simp: validatePasswordStrength_def Let_def)

lemmas char_class_defs = isUpper_def isLower_def isDigit_def isSpecial_def specialChars_def

lemma policy_strong_example:
  "validatePasswordStrength ''StrongPass123!'' = \<lparr>valid = True, errors = []\<rparr>"
  by (simp add: validatePasswordStrength_def Let_def char_class_defs)

lemma policy_weak_example:
  "errors (validatePasswordStrength ''weak'')
     = [MSG_MIN_LENGTH, MSG_UPPERCASE, MSG_NUMBER, MSG_SPECIAL]"
  by (simp add: validatePasswordStrength_def Let_def char_class_defs)

text \<open>
  C9. For every input string, \<open>validatePasswordStrength\<close> accepts exactly the strings of
  8 to 128 characters with an uppercase letter, a lowercase letter, a digit and a special
  character; it is valid exactly when the error list is empty; the messages in the list are
  pairwise distinct; and each rule's message is in the list exactly when that rule is
  violated, whatever the other rules say (no short-circuit). \<open>StrongPass123!\<close> is valid
  with no errors, and \<open>weak\<close> is invalid with at least two distinct errors.
\<close>

theorem validatePasswordStrength_policy:
  "valid (validatePasswordStrength p) =
     (8 \<le> length p \<and> length p \<le> 128 \<and> list_ex isUpper p \<and> list_ex isLower p
      \<and> list_ex isDigit p \<and> list_ex isSpecial p)
   \<and> valid (validatePasswordStrength p) = (errors (validatePasswordStrength p) = [])
   \<and> distinct (errors (validatePasswordStrength p))
   \<and> (MSG_MIN_LENGTH \<in> set (errors (validatePasswordStrength p))) = (length p < 8)
   \<and> (MSG_MAX_LENGTH \<in> set (errors (validatePasswordStrength p))) = (128 < length p)
   \<and> (MSG_UPPERCASE \<in> set (errors (validatePasswordStrength p))) = (\<not> list_ex isUpper p)
   \<and> (MSG_LOWERCASE \<in> set (errors (validatePasswordStrength p))) = (\<not> list_ex isLower p)
   \<and> (MSG_NUMBER \<in> set (errors (validatePasswordStrength p))) = (\<not> list_ex isDigit p)
   \<and> (MSG_SPECIAL \<in> set (errors (validatePasswordStrength p))) = (\<not> list_ex isSpecial p)
   \<and> validatePasswordStrength ''StrongPass123!'' = \<lparr>valid = True, errors = []\<rparr>
   \<and> \<not> valid (validatePasswordStrength ''weak'')
   \<and> 2 \<le> card (set (errors (validatePasswordStrength ''weak'')))"
proof -
  have "card (set (errors (validatePasswordStrength ''weak'')))
          = length (errors (validatePasswordStrength ''weak''))"
    using policy_errors_distinct by (rule distinct_card)
  then have weak: "2 \<le> card (set (errors (validatePasswordStrength ''weak'')))"
    by (simp add: policy_weak_example)
  have invalid: "\<not> valid (validatePasswordStrength ''weak'')"
    by (simp add: policy_valid_no_errors policy_weak_example)
  show ?thesis
    using policy_valid_iff[of p] policy_valid_no_errors[of p] policy_errors_distinct[of p]
      policy_each_rule[of p] policy_strong_example weak invalid
    by blast
qed

section \<open>Login\<close>

text \<open>
  C10. A login whose email matches no active user and a login whose email matches but
  whose password is wrong return the same error, with the same message, status and code,
  and leave the store as it was.
\<close>

theorem login_no_user_enumeration:
  assumes "User_findOne_active_email db1 email1 = None"
      and "User_findOne_active_email db2 email2 = Some u"
      and "\<not> verifyPassword deps pw2 (user_passwordHash u)"
  shows "login deps cfg env1 db1 email1 pw1
           = (Inl (AppError ''Invalid email or password'' 401 ''INVALID_CREDENTIALS''), db1)
       \<and> login deps cfg env2 db2 email2 pw2
           = (Inl (AppError ''Invalid email or password'' 401 ''INVALID_CREDENTIALS''), db2)
       \<and> fst (login deps cfg env1 db1 email1 pw1) = fst (login deps cfg env2 db2 email2 pw2)"
  using assms by (simp add: login_def)

text \<open>
  C10, witness: an unknown address and Alice's address with a wrong password.
\<close>

theorem login_no_user_enumeration_witness:
  "User_findOne_active_email ex_db0 ''nobody@vmax.com'' = None
   \<and> User_findOne_active_email ex_db0 ''alice@vmax.com'' = Some ex_alice
   \<and> \<not> verifyPassword ex_deps ''guess'' (user_passwordHash ex_alice)
   \<and> fst (login ex_deps ex_cfg ex_envLogin ex_db0 ''nobody@vmax.com'' ''guess'')
       = fst (login ex_deps ex_cfg ex_envLogin ex_db0 ''alice@vmax.com'' ''guess'')
   \<and> fst (login ex_deps ex_cfg ex_envLogin ex_db0 ''alice@vmax.com'' ''guess'')
       = Inl (AppError ''Invalid email or password'' 401 ''INVALID_CREDENTIALS'')"
proof -
  have h1: "User_findOne_active_email ex_db0 ''nobody@vmax.com'' = None"
    by (simp add: User_findOne_active_email_def ex_db0_def ex_alice_def)
  have h2: "User_findOne_active_email ex_db0 ''alice@vmax.com'' = Some ex_alice"
    by (simp add: User_findOne_active_email_def ex_db0_def ex_alice_def)
  have h3: "\<not> verifyPassword ex_deps ''guess'' (user_passwordHash ex_alice)"
    by (simp add: ex_deps_def ex_alice_def)
  from login_no_user_enumeration[OF h1 h2 h3, of ex_cfg ex_envLogin "''guess''" ex_envLogin]
  show ?thesis using h1 h2 h3 by simp
qed

section \<open>Token verification\<close>

lemma parseInt_7: "parseInt ''7'' = 7"
  by (simp add: parseInt_def digit_val_def)

lemma parseInt_15: "parseInt ''15'' = 15"
  by (simp add: parseInt_def digit_val_def)

lemma parseExpiry_7d: "parseExpiry ''7d'' = Inr 604800"
  by (simp add: parseExpiry_def parseInt_7 isDigit_def)

lemma parseExpiry_15m: "parseExpiry ''15m'' = Inr 900"
  by (simp add: parseExpiry_def parseInt_15 isDigit_def)

lemma ex_cfg_ttl:
  "getAccessTokenExpirySeconds ex_cfg = Inr 900"
  "getRefreshTokenExpirySeconds ex_cfg = Inr 604800"
  by (simp_all add: getAccessTokenExpirySeconds_def getRefreshTokenExpirySeconds_def ex_cfg_def
        parseExpiry_7d parseExpiry_15m)

lemma ex_cfg_secret: "jwt_secret ex_cfg = ''s3cret''"
  by (simp add: ex_cfg_def)

lemmas gen_defs = generateTokenPair_def generateAccessToken_def generateRefreshToken_def
  jwt_sign_def Let_def or_null_def ownedRegulatorIdsOf_def RefreshToken_create_def
  ex_cfg_ttl ex_cfg_secret

text \<open>
  C8. A refresh token produced by \<open>generateRefreshToken\<close>, for any user id, email and
  family, is accepted by \<open>verifyAccessToken\<close> at every instant before its expiry: the call
  returns the refresh claims, exactly as \<open>verifyRefreshToken\<close> does. Access-token
  verification does not tell the two kinds of token apart.
\<close>

theorem refresh_token_passes_access_verification:
  assumes gen: "generateRefreshToken cfg now uuid uid email fam = Inr (tok, family)"
      and ttl: "getRefreshTokenExpirySeconds cfg = Inr rttl"
      and live: "t div 1000 < now div 1000 + rttl"
  shows "verifyAccessToken cfg tok t
           = Inr (RefreshClaims \<lparr>rp_sub = email, rp_userId = uid, rp_tokenFamily = family,
                    rp_iat = now div 1000, rp_exp = now div 1000 + rttl\<rparr>)
       \<and> verifyAccessToken cfg tok t = verifyRefreshToken cfg tok t"
  using assms
  by (auto simp: generateRefreshToken_def verifyAccessToken_def verifyRefreshToken_def
        jwt_sign_def Let_def)

text \<open>
  C8, witness: the refresh token of Alice's login passes access-token verification at the
  instant it is issued.
\<close>

theorem refresh_token_passes_access_verification_witness:
  "generateRefreshToken ex_cfg 1000000 ''fam-1'' ''u-alice'' ''alice@vmax.com'' None
     = Inr (ex_tokA, ''fam-1'')
   \<and> getRefreshTokenExpirySeconds ex_cfg = Inr 604800
   \<and> verifyAccessToken ex_cfg ex_tokA 1000000 = Inr ex_payloadA"
proof -
  have h1: "generateRefreshToken ex_cfg 1000000 ''fam-1'' ''u-alice'' ''alice@vmax.com'' None
              = Inr (ex_tokA, ''fam-1'')"
    by (simp add: generateRefreshToken_def ex_cfg_ttl ex_cfg_secret jwt_sign_def Let_def
          ex_tokA_def)
  have h2: "getRefreshTokenExpirySeconds ex_cfg = Inr 604800" by (rule ex_cfg_ttl)
  have h3: "(1000000::int) div 1000 < 1000000 div 1000 + 604800" by simp
  from refresh_token_passes_access_verification[OF h1 h2 h3]
  show ?thesis using h1 h2 by (simp add: ex_payloadA_def)
qed

section \<open>The session ledger\<close>

subsection \<open>The unordered lookup\<close>

lemma pick_row_mem: "pick_row k ms = Some t \<Longrightarrow> t \<in> set ms"
  by (auto simp: pick_row_def split: if_splits)

lemma pick_row_None [simp]: "pick_row k ms = None \<longleftrightarrow> ms = []"
  by (simp add: pick_row_def)

lemma pick_row_single [simp]: "pick_row k [t] = Some t"
  by (simp add: pick_row_def)

text \<open>Every matching row can be the one returned.\<close>

lemma pick_row_any:
  assumes "t \<in> set ms"
  shows "\<exists>k. pick_row k ms = Some t"
proof -
  from assms obtain i where i: "i < length ms" "ms ! i = t"
    by (auto simp: in_set_conv_nth)
  then have "pick_row i ms = Some t" by (auto simp: pick_row_def)
  then show ?thesis ..
qed

lemma findOne_mem:
  "RefreshToken_findOne env db h uid = Some t \<Longrightarrow>
     t \<in> set (refresh_tokens db) \<and> rt_tokenHash t = h \<and> rt_userId t = uid"
  unfolding RefreshToken_findOne_def by (auto dest: pick_row_mem)

lemma findOne_any:
  assumes "t \<in> set (refresh_tokens db)"
  shows "\<exists>env. RefreshToken_findOne env db (rt_tokenHash t) (rt_userId t) = Some t"
proof -
  let ?ms = "filter (\<lambda>x. rt_tokenHash x = rt_tokenHash t \<and> rt_userId x = rt_userId t)
               (refresh_tokens db)"
  from assms have "t \<in> set ?ms" by simp
  from pick_row_any[OF this] obtain k where k: "pick_row k ?ms = Some t" ..
  have "RefreshToken_findOne \<lparr>env_now = 0, env_jti = [], env_family = [], env_rowId = [],
          env_pick = k\<rparr> db (rt_tokenHash t) (rt_userId t) = Some t"
    using k by (simp add: RefreshToken_findOne_def)
  then show ?thesis ..
qed



lemma revokeAllForUser_all:
  "list_all (\<lambda>t. rt_userId t = uid \<longrightarrow> rt_revokedAt t \<noteq> None) (revokeAllForUser now uid rows)"
  unfolding revokeAllForUser_def by (induction rows) simp_all

subsection \<open>What a call of \<open>refreshTokens\<close> does, case by case\<close>


lemma verify_decode:
  "verifyRefreshToken cfg tok t = Inr p \<Longrightarrow> decodeToken tok = Some p"
  unfolding verifyRefreshToken_def by (cases tok) (auto split: if_splits)

lemma refresh_fails_if:
  assumes "\<And>p t. verifyRefreshToken cfg tok (env_now env) = Inr p \<Longrightarrow>
             RefreshToken_findOne env db (hashToken tok) (claims_userId p) = Some t \<Longrightarrow>
             rt_revokedAt t \<noteq> None"
  shows "isl (fst (refreshTokens cfg env db tok))"
proof (cases "verifyRefreshToken cfg tok (env_now env)")
  case (Inl a)
  then show ?thesis by (simp add: refreshTokens_def)
next
  case (Inr p)
  show ?thesis
  proof (cases "RefreshToken_findOne env db (hashToken tok) (claims_userId p)")
    case None
    with Inr show ?thesis by (simp add: refreshTokens_def)
  next
    case (Some t)
    with assms[OF Inr Some] Inr show ?thesis by (simp add: refreshTokens_def)
  qed
qed

text \<open>
  A token all of whose ledger entries are revoked is refused, whichever row the lookup
  returns.
\<close>

lemma refresh_fails_all_revoked:
  assumes "\<And>t. t \<in> set (refresh_tokens db) \<Longrightarrow> rt_tokenHash t = hashToken tok
             \<Longrightarrow> rt_revokedAt t \<noteq> None"
  shows "isl (fst (refreshTokens cfg env db tok))"
proof (rule refresh_fails_if)
  fix p t
  assume "RefreshToken_findOne env db (hashToken tok) (claims_userId p) = Some t"
  from findOne_mem[OF this] assms show "rt_revokedAt t \<noteq> None" by blast
qed


lemma refresh_success_inv:
  assumes "refreshTokens cfg env db tok = (Inr resp, db')"
  shows "\<exists>payload stored u tp.
           verifyRefreshToken cfg tok (env_now env) = Inr payload
         \<and> RefreshToken_findOne env db (hashToken tok) (claims_userId payload) = Some stored
         \<and> rt_revokedAt stored = None
         \<and> \<not> rt_expiresAt stored < env_now env
         \<and> User_findByPk db (claims_userId payload) = Some u \<and> user_isActive u
         \<and> generateTokenPair cfg env (user_id u) (user_email u) (user_role u) (user_fleetId u)
              (ownedRegulatorIdsOf db u) (Some (rt_tokenFamily stored)) = Inr tp
         \<and> resp = \<lparr>accessToken = tp_accessToken tp, refreshToken = tp_refreshToken tp,
                    tokenType = ''Bearer'', expiresIn = tp_accessTokenExpiresIn tp\<rparr>
         \<and> db' = db\<lparr>refresh_tokens :=
                      revokeById (env_now env) (rt_id stored) (refresh_tokens db)
                      @ [RefreshToken_create env (user_id u) (hashToken (tp_refreshToken tp))
                           (tp_tokenFamily tp) (tp_refreshTokenExpiresAt tp)]\<rparr>"
  using assms unfolding refreshTokens_def
  by (auto simp: Let_def split: sum.splits option.splits if_splits)

lemma generateTokenPair_inv:
  assumes "generateTokenPair cfg env uid email r fid owned fam = Inr tp"
  shows "\<exists>attl rttl.
           getAccessTokenExpirySeconds cfg = Inr attl
         \<and> getRefreshTokenExpirySeconds cfg = Inr rttl
         \<and> tp_tokenFamily tp = (case fam of None \<Rightarrow> env_family env
                                 | Some f \<Rightarrow> if f \<noteq> [] then f else env_family env)
         \<and> tp_refreshToken tp = jwt_sign (RefreshBody email uid (tp_tokenFamily tp)) (jwt_secret cfg)
                                   rttl (env_now env)
         \<and> tp_accessToken tp = jwt_sign (AccessBody email uid r (or_null fid) owned (env_jti env))
                                   (jwt_secret cfg) attl (env_now env)
         \<and> tp_accessTokenExpiresIn tp = attl
         \<and> tp_refreshTokenExpiresAt tp = env_now env + rttl * 1000"
  using assms unfolding generateTokenPair_def generateAccessToken_def generateRefreshToken_def
  by (auto simp: Let_def split: sum.splits option.splits if_splits)

subsection \<open>The ledger stays well-formed\<close>

lemma only_revokes_id: "only_revokes (\<lambda>t. t)"
  by (simp add: only_revokes_def)

lemma only_revokes_if: "only_revokes (\<lambda>t. if P t then t\<lparr>rt_revokedAt := Some now\<rparr> else t)"
  by (auto simp: only_revokes_def)

lemma only_revokes_keeps:
  assumes "only_revokes f"
  shows "rt_id (f t) = rt_id t" and "rt_tokenHash (f t) = rt_tokenHash t"
    and "rt_tokenFamily (f t) = rt_tokenFamily t" and "rt_userId (f t) = rt_userId t"
    and "rt_revokedAt t \<noteq> None \<Longrightarrow> rt_revokedAt (f t) \<noteq> None"
    and "rt_revokedAt (f t) = None \<Longrightarrow> f t = t"
proof -
  from assms have d: "f t = t \<or> (\<exists>v. f t = t\<lparr>rt_revokedAt := Some v\<rparr>)"
    by (simp add: only_revokes_def)
  from d show "rt_id (f t) = rt_id t" by auto
  from d show "rt_tokenHash (f t) = rt_tokenHash t" by auto
  from d show "rt_tokenFamily (f t) = rt_tokenFamily t" by auto
  from d show "rt_userId (f t) = rt_userId t" by auto
  from d show "rt_revokedAt t \<noteq> None \<Longrightarrow> rt_revokedAt (f t) \<noteq> None" by auto
  from d show "rt_revokedAt (f t) = None \<Longrightarrow> f t = t" by auto
qed


lemma entry_wf_same_hash:
  assumes "entry_wf t" "entry_wf t'" "rt_tokenHash t = rt_tokenHash t'"
  shows "rt_tokenFamily t = rt_tokenFamily t'"
  using assms by (simp add: entry_wf_def)

lemma ledger_wf_mem: "ledger_wf db \<Longrightarrow> t \<in> set (refresh_tokens db) \<Longrightarrow> entry_wf t"
  by (simp add: ledger_wf_def list_all_iff)

lemma entry_wf_only_revokes:
  assumes "only_revokes f"
  shows "entry_wf (f t) = entry_wf t"
  using only_revokes_keeps(2,3)[OF assms, of t] by (simp add: entry_wf_def)

lemma list_all_only_revokes:
  assumes "only_revokes f"
  shows "list_all entry_wf (map f rows) = list_all entry_wf rows"
  by (induction rows) (simp_all add: entry_wf_only_revokes[OF assms])

lemma live_families_append [simp]:
  "live_families (xs @ ys) = live_families xs @ live_families ys"
  by (simp add: live_families_def)

lemma live_families_mem:
  "F \<in> set (live_families rows)
     \<longleftrightarrow> (\<exists>t \<in> set rows. rt_revokedAt t = None \<and> rt_tokenFamily t = F)"
  by (auto simp: live_families_def)

text \<open>Revoking rows removes families from the live ones, and adds none.\<close>

lemma live_families_revoked_subset:
  assumes "only_revokes f"
  shows "set (live_families (map f rows)) \<subseteq> set (live_families rows)"
proof
  fix F
  assume "F \<in> set (live_families (map f rows))"
  then obtain t where t: "t \<in> set rows" "rt_revokedAt (f t) = None" "rt_tokenFamily (f t) = F"
    by (auto simp: live_families_mem)
  from only_revokes_keeps(6)[OF assms t(2)] t show "F \<in> set (live_families rows)"
    by (auto simp: live_families_mem)
qed

lemma live_families_revoked_distinct:
  assumes f: "only_revokes f" and d: "distinct (live_families rows)"
  shows "distinct (live_families (map f rows))"
  using d
proof (induction rows)
  case Nil
  show ?case by (simp add: live_families_def)
next
  case (Cons x xs)
  show ?case
  proof (cases "rt_revokedAt (f x) = None")
    case True
    then have fx: "f x = x" by (rule only_revokes_keeps(6)[OF f])
    with True Cons.prems have notin: "rt_tokenFamily x \<notin> set (live_families xs)"
      and dxs: "distinct (live_families xs)"
      by (simp_all add: live_families_def)
    from notin live_families_revoked_subset[OF f, of xs]
    have "rt_tokenFamily x \<notin> set (live_families (map f xs))" by blast
    with Cons.IH[OF dxs] True fx show ?thesis by (simp add: live_families_def)
  next
    case False
    have "live_families (map f (x # xs)) = live_families (map f xs)"
      using False by (simp add: live_families_def)
    moreover have "distinct (live_families xs)"
      using Cons.prems by (cases "rt_revokedAt x = None") (simp_all add: live_families_def)
    ultimately show ?thesis using Cons.IH by simp
  qed
qed

lemma ledger_wf_only_revokes:
  assumes "only_revokes f" "ledger_wf db"
  shows "ledger_wf (db\<lparr>refresh_tokens := map f (refresh_tokens db)\<rparr>)"
  using assms
  by (simp add: ledger_wf_def list_all_only_revokes live_families_revoked_distinct)

lemma ledger_wf_revokeById:
  "ledger_wf db \<Longrightarrow> ledger_wf (db\<lparr>refresh_tokens := revokeById now rid (refresh_tokens db)\<rparr>)"
  unfolding revokeById_def by (rule ledger_wf_only_revokes[OF only_revokes_if])

lemma ledger_wf_revokeFamily:
  "ledger_wf db \<Longrightarrow> ledger_wf (db\<lparr>refresh_tokens := revokeFamily now fam (refresh_tokens db)\<rparr>)"
  unfolding revokeFamily_def by (rule ledger_wf_only_revokes[OF only_revokes_if])

lemma ledger_wf_revokeAllForUser:
  "ledger_wf db
     \<Longrightarrow> ledger_wf (db\<lparr>refresh_tokens := revokeAllForUser now uid (refresh_tokens db)\<rparr>)"
  unfolding revokeAllForUser_def by (rule ledger_wf_only_revokes[OF only_revokes_if])

lemma ledger_wf_rows: "refresh_tokens db' = refresh_tokens db \<Longrightarrow> ledger_wf db' = ledger_wf db"
  by (simp add: ledger_wf_def)

text \<open>In a well-formed ledger two live rows of one family are one row.\<close>

lemma live_row_unique:
  assumes wf: "ledger_wf db"
      and x: "x \<in> set (refresh_tokens db)" "rt_revokedAt x = None"
      and y: "y \<in> set (refresh_tokens db)" "rt_revokedAt y = None"
      and same: "rt_tokenFamily x = rt_tokenFamily y"
  shows "x = y"
proof -
  let ?L = "filter (\<lambda>t. rt_revokedAt t = None) (refresh_tokens db)"
  from wf have "distinct (map rt_tokenFamily ?L)" by (simp add: ledger_wf_def live_families_def)
  then have "inj_on rt_tokenFamily (set ?L)" by (simp add: distinct_map)
  moreover have "x \<in> set ?L" "y \<in> set ?L" using x y by simp_all
  ultimately show ?thesis using same by (auto dest: inj_onD)
qed

text \<open>After the found row has been revoked, its family has no live row left.\<close>

lemma rotated_family_not_live:
  assumes wf: "ledger_wf db"
      and st: "stored \<in> set (refresh_tokens db)" "rt_revokedAt stored = None"
  shows "rt_tokenFamily stored
           \<notin> set (live_families (revokeById now (rt_id stored) (refresh_tokens db)))"
proof
  assume "rt_tokenFamily stored
            \<in> set (live_families (revokeById now (rt_id stored) (refresh_tokens db)))"
  then obtain t0 where t0: "t0 \<in> set (refresh_tokens db)"
    and live: "rt_revokedAt (if rt_id t0 = rt_id stored then t0\<lparr>rt_revokedAt := Some now\<rparr> else t0)
                 = None"
    and fam: "rt_tokenFamily (if rt_id t0 = rt_id stored then t0\<lparr>rt_revokedAt := Some now\<rparr> else t0)
                 = rt_tokenFamily stored"
    by (auto simp: live_families_mem revokeById_def)
  from live have ne: "rt_id t0 \<noteq> rt_id stored" by (auto split: if_splits)
  with live fam have "rt_revokedAt t0 = None" "rt_tokenFamily t0 = rt_tokenFamily stored"
    by simp_all
  with live_row_unique[OF wf t0 _ st] have "t0 = stored" by simp
  with ne show False by simp
qed

lemma new_row_wf:
  assumes "generateTokenPair cfg env uid email r fid owned fam = Inr tp"
      and "case fam of None \<Rightarrow> env_family env \<noteq> [] | Some f \<Rightarrow> f \<noteq> []"
  shows "entry_wf (RefreshToken_create env uid' (hashToken (tp_refreshToken tp)) (tp_tokenFamily tp)
                     expires)"
proof -
  from generateTokenPair_inv[OF assms(1)] obtain attl :: int and rttl :: int where
    f: "tp_tokenFamily tp = (case fam of None \<Rightarrow> env_family env
                                 | Some f \<Rightarrow> if f \<noteq> [] then f else env_family env)" and
    t: "tp_refreshToken tp = jwt_sign (RefreshBody email uid (tp_tokenFamily tp)) (jwt_secret cfg)
                                   rttl (env_now env)"
    by auto
  have "tp_tokenFamily tp \<noteq> []" using f assms(2) by (cases fam) auto
  then show ?thesis
    using t by (simp add: entry_wf_def RefreshToken_create_def hashToken_def jwt_sign_def Let_def)
qed

text \<open>
  The empty ledger is well-formed, and every operation of the service keeps it so. A
  login needs the family id it draws to be non-empty and not in the ledger yet, as a fresh
  UUID is. So every ledger the service can reach is well-formed, whatever rows the lookups
  return and also after a refresh that returned the presented token.
\<close>

lemma ledger_wf_initial: "ledger_wf (db\<lparr>refresh_tokens := []\<rparr>)"
  by (simp add: ledger_wf_def live_families_def)

lemma login_preserves_wf:
  assumes "ledger_wf db" and "env_family env \<noteq> []"
      and "env_family env \<notin> set (map rt_tokenFamily (refresh_tokens db))"
  shows "ledger_wf (snd (login deps cfg env db email password))"
proof (cases "login deps cfg env db email password")
  case (Pair res db')
  show ?thesis
  proof (cases res)
    case (Inl e)
    with Pair have "db' = db"
      unfolding login_def by (auto simp: Let_def split: option.splits if_splits sum.splits)
    with Pair assms show ?thesis by simp
  next
    case (Inr resp)
    with Pair obtain u tp where
      tp: "generateTokenPair cfg env (user_id u) (user_email u) (user_role u) (user_fleetId u)
             (ownedRegulatorIdsOf db u) None = Inr tp" and
      rows: "refresh_tokens db' = refresh_tokens db
               @ [RefreshToken_create env (user_id u) (hashToken (tp_refreshToken tp))
                    (tp_tokenFamily tp) (tp_refreshTokenExpiresAt tp)]"
      unfolding login_def by (auto simp: Let_def split: option.splits if_splits sum.splits)
    have "entry_wf (RefreshToken_create env (user_id u) (hashToken (tp_refreshToken tp))
                    (tp_tokenFamily tp) (tp_refreshTokenExpiresAt tp))"
      by (rule new_row_wf[OF tp]) (simp add: assms(2))
    moreover from generateTokenPair_inv[OF tp] have fam: "tp_tokenFamily tp = env_family env"
      by auto
    moreover have "env_family env \<notin> set (live_families (refresh_tokens db))"
      using assms(3) by (force simp: live_families_mem)
    ultimately show ?thesis
      using assms(1) rows Pair
      by (simp add: ledger_wf_def) (simp add: live_families_def RefreshToken_create_def)
  qed
qed

lemma refresh_preserves_wf:
  assumes "ledger_wf db"
  shows "ledger_wf (snd (refreshTokens cfg env db tok))"
proof (cases "refreshTokens cfg env db tok")
  case (Pair res db')
  show ?thesis
  proof (cases res)
    case (Inl e)
    with Pair have "db' = db
        \<or> (\<exists>fam. db' = db\<lparr>refresh_tokens := revokeFamily (env_now env) fam (refresh_tokens db)\<rparr>)
        \<or> (\<exists>rid. db' = db\<lparr>refresh_tokens := revokeById (env_now env) rid (refresh_tokens db)\<rparr>)"
      unfolding refreshTokens_def
      by (auto simp: Let_def split: option.splits if_splits sum.splits)
    with assms Pair show ?thesis
      by (auto simp: ledger_wf_revokeFamily ledger_wf_revokeById)
  next
    case (Inr resp)
    with Pair have ok: "refreshTokens cfg env db tok = (Inr resp, db')" by simp
    from refresh_success_inv[OF ok] obtain payload stored u tp where
      f: "RefreshToken_findOne env db (hashToken tok) (claims_userId payload) = Some stored" and
      live: "rt_revokedAt stored = None" and
      tp: "generateTokenPair cfg env (user_id u) (user_email u) (user_role u) (user_fleetId u)
              (ownedRegulatorIdsOf db u) (Some (rt_tokenFamily stored)) = Inr tp" and
      db': "db' = db\<lparr>refresh_tokens :=
                      revokeById (env_now env) (rt_id stored) (refresh_tokens db)
                      @ [RefreshToken_create env (user_id u) (hashToken (tp_refreshToken tp))
                           (tp_tokenFamily tp) (tp_refreshTokenExpiresAt tp)]\<rparr>"
      by blast
    let ?row = "RefreshToken_create env (user_id u) (hashToken (tp_refreshToken tp))
                  (tp_tokenFamily tp) (tp_refreshTokenExpiresAt tp)"
    have mem: "stored \<in> set (refresh_tokens db)" using findOne_mem[OF f] by simp
    then have ne: "rt_tokenFamily stored \<noteq> []"
      using ledger_wf_mem[OF assms] by (simp add: entry_wf_def)
    then have row: "entry_wf ?row"
      by (intro new_row_wf[OF tp]) simp
    from generateTokenPair_inv[OF tp] ne have fam: "tp_tokenFamily tp = rt_tokenFamily stored"
      by auto
    have old: "ledger_wf (db\<lparr>refresh_tokens :=
                 revokeById (env_now env) (rt_id stored) (refresh_tokens db)\<rparr>)"
      using assms by (rule ledger_wf_revokeById)
    have "live_families [?row] = [rt_tokenFamily stored]"
      using fam by (simp add: live_families_def RefreshToken_create_def)
    with old row rotated_family_not_live[OF assms mem live, of "env_now env"]
    have "ledger_wf db'" unfolding db' by (simp add: ledger_wf_def)
    with Pair show ?thesis by simp
  qed
qed

lemma logout_preserves_wf:
  assumes "ledger_wf db"
  shows "ledger_wf (logout env db uid tok)"
  using assms unfolding logout_def
  by (simp add: ledger_wf_revokeById split: option.splits)

lemma resetPassword_preserves_wf:
  assumes "ledger_wf db"
  shows "ledger_wf (snd (resetPassword deps env db tok pw))"
proof -
  have "snd (resetPassword deps env db tok pw) = db
      \<or> (\<exists>u. refresh_tokens (snd (resetPassword deps env db tok pw))
                 = revokeAllForUser (env_now env) u (refresh_tokens db))"
    by (auto simp: resetPassword_def Let_def split: option.splits if_splits)
  then show ?thesis
  proof
    assume "snd (resetPassword deps env db tok pw) = db"
    with assms show ?thesis by simp
  next
    assume "\<exists>u. refresh_tokens (snd (resetPassword deps env db tok pw))
                 = revokeAllForUser (env_now env) u (refresh_tokens db)"
    then obtain u where "refresh_tokens (snd (resetPassword deps env db tok pw))
                 = refresh_tokens (db\<lparr>refresh_tokens := revokeAllForUser (env_now env) u (refresh_tokens db)\<rparr>)"
      by auto
    from ledger_wf_rows[OF this] ledger_wf_revokeAllForUser[OF assms] show ?thesis by simp
  qed
qed

subsection \<open>The running example, step by step\<close>

lemma login_example:
  "login ex_deps ex_cfg ex_envLogin ex_db0 ''alice@vmax.com'' ''StrongPass123!''
     = (Inr \<lparr>accessToken = Jwt (AccessBody ''alice@vmax.com'' ''u-alice'' FLEET_MGR (Some ''F1'') []
                                ''jti-1'') 1000 1900 ''s3cret'',
              refreshToken = ex_tokA, tokenType = ''Bearer'', expiresIn = 900,
              user = toPublic ex_aliceL\<rparr>, ex_dbA)"
  by (simp add: login_def User_findOne_active_email_def ex_db0_def ex_alice_def ex_deps_def
        gen_defs ex_envLogin_def ex_tokA_def ex_dbA_def ex_rowA_def ex_aliceL_def)

lemma verify_tokA:
  "t div 1000 < 605800 \<Longrightarrow> verifyRefreshToken ex_cfg ex_tokA t = Inr ex_payloadA"
  by (simp add: verifyRefreshToken_def ex_tokA_def ex_cfg_secret ex_payloadA_def)



lemma findOne_dbA:
  "RefreshToken_findOne env ex_dbA (hashToken ex_tokA) ''u-alice'' = Some ex_rowA"
  by (simp add: RefreshToken_findOne_def ex_dbA_def ex_rowA_def)

lemma findByPk_dbA: "User_findByPk ex_dbA ''u-alice'' = Some ex_aliceL"
  by (simp add: User_findByPk_def ex_dbA_def ex_aliceL_def ex_alice_def)



lemma hash_tokB_tokA [simp]: "hashToken ex_tokB \<noteq> hashToken ex_tokA"
  by (simp add: hashToken_def ex_tokA_def ex_tokB_def)





subsection \<open>A refresh in the second of the login\<close>

lemma same_second_example:
  "refreshTokens ex_cfg ex_envSame ex_dbA ex_tokA = (Inr ex_respS, ex_dbS)"
  by (simp add: refreshTokens_def verify_tokA ex_envSame_def ex_payloadA_def
        RefreshToken_findOne_def ex_dbA_def ex_rowA_def User_findByPk_def ex_aliceL_def
        ex_alice_def revokeById_def gen_defs ex_dbS_def ex_rowS_def ex_respS_def)
     (simp add: ex_tokA_def)

lemma matching_dbS:
  "filter (\<lambda>t. rt_tokenHash t = hashToken ex_tokA \<and> rt_userId t = ''u-alice'')
     (refresh_tokens ex_dbS) = [ex_rowA\<lparr>rt_revokedAt := Some 1000400\<rparr>, ex_rowS]"
  by (simp add: ex_dbS_def ex_rowA_def ex_rowS_def)

lemma older_row_example:
  "refreshTokens ex_cfg ex_envOlder ex_dbS ex_tokA
     = (Inl (AppError ''Refresh token has been revoked'' 403 ''TOKEN_REVOKED''),
        ex_dbS\<lparr>refresh_tokens := [ex_rowA\<lparr>rt_revokedAt := Some 2000000\<rparr>,
                                  ex_rowS\<lparr>rt_revokedAt := Some 2000000\<rparr>]\<rparr>)"
  by (simp add: refreshTokens_def verify_tokA ex_envOlder_def ex_payloadA_def
        RefreshToken_findOne_def matching_dbS pick_row_def)
     (simp add: ex_dbS_def ex_rowA_def ex_rowS_def revokeFamily_def)

lemma newer_row_example:
  "isl (fst (refreshTokens ex_cfg ex_envNewer ex_dbS ex_tokA)) = False"
  by (simp add: refreshTokens_def verify_tokA ex_envNewer_def ex_envOlder_def ex_payloadA_def
        RefreshToken_findOne_def matching_dbS pick_row_def)
     (simp add: ex_dbS_def ex_rowS_def User_findByPk_def ex_aliceL_def ex_alice_def gen_defs)

subsection \<open>Rotation\<close>

lemma filter_map_keep:
  assumes "\<And>x. P (f x) = P x"
  shows "filter P (map f xs) = map f (filter P xs)"
  using assms by (induction xs) auto

lemma entries_of_revokeById:
  "filter (\<lambda>t. rt_tokenHash t = h) (revokeById now rid rows)
     = revokeById now rid (filter (\<lambda>t. rt_tokenHash t = h) rows)"
  unfolding revokeById_def by (rule filter_map_keep) simp

lemma hashToken_inj [simp]: "hashToken a = hashToken b \<longleftrightarrow> a = b"
  by (simp add: hashToken_def)

lemma findByPk_id: "User_findByPk db uid = Some u \<Longrightarrow> user_id u = uid"
  by (auto simp: User_findByPk_def find_Some_iff)

text \<open>
  In a well-formed ledger, once the live row found for a token has been revoked, every row
  that stores the token's hash is revoked, unless the row added is one.
\<close>

lemma entries_revoked_after_rotation:
  assumes wf: "ledger_wf db"
      and st: "stored \<in> set (refresh_tokens db)" "rt_revokedAt stored = None"
              "rt_tokenHash stored = h"
      and row: "rt_tokenHash row \<noteq> h"
      and t: "t \<in> set (revokeById now (rt_id stored) (refresh_tokens db) @ [row])"
             "rt_tokenHash t = h"
  shows "rt_revokedAt t \<noteq> None \<and> rt_tokenFamily t = rt_tokenFamily stored"
proof -
  from t row have "t \<in> set (revokeById now (rt_id stored) (refresh_tokens db))" by auto
  then obtain t0 where t0: "t0 \<in> set (refresh_tokens db)"
    and tt: "t = (if rt_id t0 = rt_id stored then t0\<lparr>rt_revokedAt := Some now\<rparr> else t0)"
    unfolding revokeById_def by auto
  from tt t(2) have h0: "rt_tokenHash t0 = h" by (simp split: if_splits)
  have fam0: "rt_tokenFamily t0 = rt_tokenFamily stored"
    using ledger_wf_mem[OF wf t0] ledger_wf_mem[OF wf st(1)] h0 st(3)
    by (intro entry_wf_same_hash) simp_all
  have "rt_revokedAt t \<noteq> None"
  proof (cases "rt_id t0 = rt_id stored")
    case True
    with tt show ?thesis by simp
  next
    case False
    have "rt_revokedAt t0 \<noteq> None"
    proof
      assume "rt_revokedAt t0 = None"
      from live_row_unique[OF wf t0 this st(1,2) fam0] False show False by simp
    qed
    with tt False show ?thesis by simp
  qed
  moreover from tt fam0 have "rt_tokenFamily t = rt_tokenFamily stored"
    by (simp split: if_splits)
  ultimately show ?thesis ..
qed

text \<open>
  What a successful refresh does in a well-formed ledger when the token it mints is new to
  the ledger. The new refresh token carries the family of the presented token's entry and
  differs from the presented token; a new access token is minted; the ledger is the old one
  with the found entry revoked, followed by one unrevoked entry for the new token under the
  same family, and it is well-formed again; the presented token is refused from then on,
  whichever row a lookup returns; and the new token is accepted until it expires.
\<close>

lemma rotation_to_new_token:
  assumes verify: "verifyRefreshToken cfg tok (env_now env) = Inr payload"
      and found: "RefreshToken_findOne env db (hashToken tok) (claims_userId payload) = Some stored"
      and live: "rt_revokedAt stored = None"
      and fresh: "\<not> rt_expiresAt stored < env_now env"
      and usr: "User_findByPk db (claims_userId payload) = Some u" "user_isActive u"
      and ttl: "getAccessTokenExpirySeconds cfg = Inr attl" "getRefreshTokenExpirySeconds cfg = Inr rttl"
      and wf: "ledger_wf db"
      and new: "entries_of db (jwt_sign (RefreshBody (user_email u) (user_id u)
                  (rt_tokenFamily stored)) (jwt_secret cfg) rttl (env_now env)) = []"
  shows "\<exists>resp db'.
           refreshTokens cfg env db tok = (Inr resp, db')
         \<and> decodeToken (refreshToken resp)
             = Some (RefreshClaims \<lparr>rp_sub = user_email u, rp_userId = user_id u,
                       rp_tokenFamily = rt_tokenFamily stored,
                       rp_iat = env_now env div 1000, rp_exp = env_now env div 1000 + rttl\<rparr>)
         \<and> decodeToken (accessToken resp)
             = Some (AccessClaims \<lparr>sub = user_email u, userId = user_id u, role = user_role u,
                       fleetId = or_null (user_fleetId u),
                       ownedRegulatorIds = ownedRegulatorIdsOf db u,
                       iat = env_now env div 1000, exp = env_now env div 1000 + attl,
                       jti = env_jti env\<rparr>)
         \<and> refresh_tokens db'
             = revokeById (env_now env) (rt_id stored) (refresh_tokens db)
               @ [\<lparr>rt_id = env_rowId env, rt_userId = user_id u,
                   rt_tokenHash = hashToken (refreshToken resp),
                   rt_tokenFamily = rt_tokenFamily stored,
                   rt_expiresAt = env_now env + rttl * 1000,
                   rt_revokedAt = None, rt_createdAt = env_now env\<rparr>]
         \<and> ledger_wf db'
         \<and> refreshToken resp \<noteq> tok
         \<and> list_all (\<lambda>t. rt_revokedAt t \<noteq> None) (entries_of db' tok)
         \<and> (\<forall>env2. isl (fst (refreshTokens cfg env2 db' tok)))
         \<and> (\<forall>env2. env_now env2 div 1000 < env_now env div 1000 + rttl
                \<longrightarrow> \<not> isl (fst (refreshTokens cfg env2 db' (refreshToken resp))))"
proof -
  let ?now = "env_now env"
  let ?F = "rt_tokenFamily stored"
  let ?rtok = "jwt_sign (RefreshBody (user_email u) (user_id u) ?F) (jwt_secret cfg) rttl ?now"
  let ?atok = "jwt_sign (AccessBody (user_email u) (user_id u) (user_role u)
                 (or_null (user_fleetId u)) (ownedRegulatorIdsOf db u) (env_jti env))
                 (jwt_secret cfg) attl ?now"
  let ?row = "\<lparr>rt_id = env_rowId env, rt_userId = user_id u, rt_tokenHash = hashToken ?rtok,
               rt_tokenFamily = ?F, rt_expiresAt = ?now + rttl * 1000,
               rt_revokedAt = None, rt_createdAt = ?now\<rparr>"
  let ?rows' = "revokeById ?now (rt_id stored) (refresh_tokens db) @ [?row]"
  let ?db' = "db\<lparr>refresh_tokens := ?rows'\<rparr>"
  let ?resp = "\<lparr>accessToken = ?atok, refreshToken = ?rtok, tokenType = ''Bearer'',
                expiresIn = attl\<rparr>"
  have st_mem: "stored \<in> set (refresh_tokens db)" and st_hash: "rt_tokenHash stored = hashToken tok"
    using findOne_mem[OF found] by simp_all
  have fam: "?F \<noteq> []"
    using ledger_wf_mem[OF wf st_mem] by (simp add: entry_wf_def)
  have tp: "generateTokenPair cfg e (user_id u) (user_email u) (user_role u) (user_fleetId u)
              owned (Some ?F)
            = Inr \<lparr>tp_accessToken = jwt_sign (AccessBody (user_email u) (user_id u) (user_role u)
                      (or_null (user_fleetId u)) owned (env_jti e)) (jwt_secret cfg) attl (env_now e),
                   tp_refreshToken = jwt_sign (RefreshBody (user_email u) (user_id u) ?F)
                      (jwt_secret cfg) rttl (env_now e),
                   tp_tokenFamily = ?F, tp_accessTokenExpiresIn = attl,
                   tp_refreshTokenExpiresAt = env_now e + rttl * 1000\<rparr>" for e owned
    using ttl fam
    by (simp add: generateTokenPair_def generateAccessToken_def generateRefreshToken_def Let_def)
  have run: "refreshTokens cfg env db tok = (Inr ?resp, ?db')"
    using verify found live fresh usr tp
    by (simp add: refreshTokens_def RefreshToken_create_def Let_def)
  have wf': "ledger_wf ?db'"
    using refresh_preserves_wf[OF wf, of cfg env tok] run by simp
  have differs: "?rtok \<noteq> tok"
  proof
    assume "?rtok = tok"
    with new have "entries_of db tok = []" by simp
    with st_mem st_hash show False by (auto simp: entries_of_def filter_empty_conv)
  qed
  have rev: "rt_revokedAt t \<noteq> None"
    if "t \<in> set (refresh_tokens ?db')" "rt_tokenHash t = hashToken tok" for t
    using entries_revoked_after_rotation[OF wf st_mem live st_hash, of ?row t ?now] that differs
    by simp
  have ent': "list_all (\<lambda>t. rt_revokedAt t \<noteq> None) (entries_of ?db' tok)"
    unfolding list_all_iff entries_of_def set_filter using rev by blast
  have again: "isl (fst (refreshTokens cfg env2 ?db' tok))" for env2
    using rev by (rule refresh_fails_all_revoked)
  have uid: "user_id u = claims_userId payload" using findByPk_id[OF usr(1)] .
  have usable: "\<not> isl (fst (refreshTokens cfg env2 ?db' ?rtok))"
    if t2: "env_now env2 div 1000 < ?now div 1000 + rttl" for env2
  proof -
    let ?p1 = "RefreshClaims \<lparr>rp_sub = user_email u, rp_userId = user_id u, rp_tokenFamily = ?F,
                 rp_iat = ?now div 1000, rp_exp = ?now div 1000 + rttl\<rparr>"
    have v: "verifyRefreshToken cfg ?rtok (env_now env2) = Inr ?p1"
      using t2 by (simp add: verifyRefreshToken_def jwt_sign_def Let_def)
    have old: "filter (\<lambda>t. rt_tokenHash t = hashToken ?rtok \<and> rt_userId t = user_id u)
                 (revokeById ?now (rt_id stored) (refresh_tokens db)) = []"
    proof -
      have "filter (\<lambda>t. rt_tokenHash t = hashToken ?rtok) (refresh_tokens db) = []"
        using new by (simp add: entries_of_def)
      then have "filter (\<lambda>t. rt_tokenHash t = hashToken ?rtok)
              (revokeById ?now (rt_id stored) (refresh_tokens db)) = []"
        unfolding entries_of_revokeById by (simp add: revokeById_def)
      then show ?thesis by (auto simp: filter_empty_conv)
    qed
    have f: "RefreshToken_findOne env2 ?db' (hashToken ?rtok) (claims_userId ?p1) = Some ?row"
      using old by (simp add: RefreshToken_findOne_def)
    have a: "?now div 1000 * 1000 \<le> ?now" by simp
    from t2 have "env_now env2 div 1000 + 1 \<le> ?now div 1000 + rttl" by simp
    then have b: "(env_now env2 div 1000 + 1) * 1000 \<le> (?now div 1000 + rttl) * 1000"
      by simp
    have c: "env_now env2 < (env_now env2 div 1000 + 1) * 1000"
      using pos_mod_bound[of 1000 "env_now env2"] div_mult_mod_eq[of "env_now env2" 1000]
      by (simp add: algebra_simps)
    from a b c have notexp: "\<not> ?now + rttl * 1000 < env_now env2"
      by (simp add: algebra_simps)
    have usr': "User_findByPk ?db' (claims_userId ?p1) = Some u"
      using usr(1) uid by (simp add: User_findByPk_def)
    show ?thesis
      using v f notexp usr' usr(2) tp
      by (simp add: refreshTokens_def RefreshToken_create_def Let_def)
  qed
  have d1: "decodeToken ?rtok = Some (RefreshClaims \<lparr>rp_sub = user_email u, rp_userId = user_id u,
                       rp_tokenFamily = ?F,
                       rp_iat = ?now div 1000, rp_exp = ?now div 1000 + rttl\<rparr>)"
    by (simp add: jwt_sign_def Let_def)
  have d2: "decodeToken ?atok = Some (AccessClaims \<lparr>sub = user_email u, userId = user_id u,
                       role = user_role u, fleetId = or_null (user_fleetId u),
                       ownedRegulatorIds = ownedRegulatorIdsOf db u,
                       iat = ?now div 1000, exp = ?now div 1000 + attl,
                       jti = env_jti env\<rparr>)"
    by (simp add: jwt_sign_def Let_def)
  show ?thesis
    apply (rule exI[of _ ?resp], rule exI[of _ ?db'])
    using run d1 d2 wf' differs ent' again usable by simp
qed

text \<open>
  C2, the code at a failing input: a refresh made in the second the presented token was
  issued. Alice logs in at 1000.000 s and refreshes at 1000.400 s. The call succeeds, and
  the refresh token it returns is the presented token itself: the refresh payload has no
  token id, and the issue and expiry times count whole seconds. The ledger then holds two
  entries for the one hash, the found entry revoked and the new one live. What the next
  refresh with that token does depends on the row the lookup returns. With the newer row
  it succeeds: the presented token has been used twice. With the older row it fails with
  \<open>TOKEN_REVOKED\<close> and revokes the family: the token the rotation has just handed out is
  refused. Either way the rotation has not replaced the presented token by a new,
  single-use one.
\<close>

theorem refresh_same_second_reissues_token:
  "map_sum id refreshToken
       (fst (login ex_deps ex_cfg ex_envLogin ex_db0 ''alice@vmax.com'' ''StrongPass123!''))
     = Inr ex_tokA
   \<and> snd (login ex_deps ex_cfg ex_envLogin ex_db0 ''alice@vmax.com'' ''StrongPass123!'') = ex_dbA
   \<and> env_now ex_envLogin div 1000 = env_now ex_envSame div 1000
   \<and> refreshTokens ex_cfg ex_envSame ex_dbA ex_tokA = (Inr ex_respS, ex_dbS)
   \<and> refreshToken ex_respS = ex_tokA
   \<and> map rt_tokenHash (refresh_tokens ex_dbS) = [hashToken ex_tokA, hashToken ex_tokA]
   \<and> map rt_revokedAt (refresh_tokens ex_dbS) = [Some 1000400, None]
   \<and> env_pick ex_envNewer = 1
   \<and> \<not> isl (fst (refreshTokens ex_cfg ex_envNewer ex_dbS ex_tokA))
   \<and> env_pick ex_envOlder = 0
   \<and> refreshTokens ex_cfg ex_envOlder ex_dbS ex_tokA
       = (Inl (AppError ''Refresh token has been revoked'' 403 ''TOKEN_REVOKED''),
          ex_dbS\<lparr>refresh_tokens := [ex_rowA\<lparr>rt_revokedAt := Some 2000000\<rparr>,
                                    ex_rowS\<lparr>rt_revokedAt := Some 2000000\<rparr>]\<rparr>)"
proof -
  have times: "env_now ex_envLogin div 1000 = env_now ex_envSame div 1000"
    by (simp add: ex_envLogin_def ex_envSame_def)
  have rows: "map rt_tokenHash (refresh_tokens ex_dbS) = [hashToken ex_tokA, hashToken ex_tokA]"
    "map rt_revokedAt (refresh_tokens ex_dbS) = [Some 1000400, None]"
    by (simp_all add: ex_dbS_def ex_rowA_def ex_rowS_def)
  have picks: "env_pick ex_envNewer = 1" "env_pick ex_envOlder = 0"
    by (simp_all add: ex_envNewer_def ex_envOlder_def)
  have tok: "refreshToken ex_respS = ex_tokA" by (simp add: ex_respS_def)
  show ?thesis
    using times rows picks tok same_second_example newer_row_example older_row_example
    by (simp add: login_example)
qed

subsection \<open>Reuse detection\<close>






subsection \<open>Password reset\<close>

lemma resetPassword_success_inv:
  assumes "resetPassword deps env db tok pw = (Inr m, db')"
  shows "\<exists>r. PasswordReset_findOne db (hashToken tok) = Some r
           \<and> \<not> pr_expiresAt r < env_now env
           \<and> valid (validatePasswordStrength pw)
           \<and> refresh_tokens db' = revokeAllForUser (env_now env) (pr_userId r) (refresh_tokens db)"
  using assms unfolding resetPassword_def
  by (auto simp: Let_def split: option.splits if_splits)

text \<open>
  C3. When \<open>resetPassword\<close> returns success for the reset record of a user, the store it
  returns has every refresh-token entry of that user revoked, and every refresh with a
  token that carries that user's id fails on it, at any time and under any configuration.
\<close>

theorem resetPassword_revokes_sessions:
  assumes ok: "resetPassword deps env db resetToken newPassword = (Inr m, db')"
  shows "\<exists>r. PasswordReset_findOne db (hashToken resetToken) = Some r
           \<and> (\<forall>t \<in> set (refresh_tokens db'). rt_userId t = pr_userId r \<longrightarrow> rt_revokedAt t \<noteq> None)
           \<and> (\<forall>cfg env2 tok.
                 map_option claims_userId (decodeToken tok) = Some (pr_userId r) \<longrightarrow>
                 isl (fst (refreshTokens cfg env2 db' tok)))"
proof -
  from resetPassword_success_inv[OF ok] obtain r where
    r: "PasswordReset_findOne db (hashToken resetToken) = Some r" and
    rows: "refresh_tokens db' = revokeAllForUser (env_now env) (pr_userId r) (refresh_tokens db)"
    by blast
  have all: "\<forall>t \<in> set (refresh_tokens db'). rt_userId t = pr_userId r \<longrightarrow> rt_revokedAt t \<noteq> None"
    using revokeAllForUser_all[of "pr_userId r" "env_now env" "refresh_tokens db"] rows
    by (simp add: list_all_iff)
  have fails: "isl (fst (refreshTokens cfg env2 db' tok))"
    if u: "map_option claims_userId (decodeToken tok) = Some (pr_userId r)" for cfg env2 tok
  proof (rule refresh_fails_if)
    fix p t
    assume p: "verifyRefreshToken cfg tok (env_now env2) = Inr p"
      and t: "RefreshToken_findOne env2 db' (hashToken tok) (claims_userId p) = Some t"
    have "decodeToken tok = Some p" using p by (rule verify_decode)
    with u have "claims_userId p = pr_userId r" by simp
    with findOne_mem[OF t] have "t \<in> set (refresh_tokens db')" "rt_userId t = pr_userId r"
      by simp_all
    with all show "rt_revokedAt t \<noteq> None" by blast
  qed
  show ?thesis using r all fails by blast
qed

text \<open>
  C3, witness: Alice resets her password at second 501000, after her rotation. The reset
  succeeds, both her entries are revoked afterwards, and the refresh token the rotation
  gave her is refused.
\<close>

theorem resetPassword_revokes_sessions_witness:
  "fst (resetPassword ex_deps ex_envReset ex_dbR ex_resetToken ''NewStrong456?'')
     = Inr ''Password reset successful''
   \<and> map rt_revokedAt
       (refresh_tokens (snd (resetPassword ex_deps ex_envReset ex_dbR ex_resetToken ''NewStrong456?'')))
     = [Some 500000000, Some 501000000]
   \<and> (\<forall>cfg env2. isl (fst (refreshTokens cfg env2
         (snd (resetPassword ex_deps ex_envReset ex_dbR ex_resetToken ''NewStrong456?'')) ex_tokB)))"
proof -
  let ?res = "resetPassword ex_deps ex_envReset ex_dbR ex_resetToken ''NewStrong456?''"
  have strong: "valid (validatePasswordStrength ''NewStrong456?'')"
    by (simp add: validatePasswordStrength_def Let_def char_class_defs)
  have found: "PasswordReset_findOne ex_dbR (hashToken ex_resetToken) = Some ex_reset"
    by (simp add: PasswordReset_findOne_def ex_dbR_def ex_reset_def)
  have fst_ok: "fst ?res = Inr ''Password reset successful''"
    using strong found
    by (simp add: resetPassword_def Let_def ex_reset_def ex_envReset_def)
  have rows: "refresh_tokens (snd ?res)
                = revokeAllForUser 501000000 ''u-alice'' (refresh_tokens ex_dbB)"
    using strong found
    by (simp add: resetPassword_def Let_def ex_reset_def ex_envReset_def ex_dbR_def)
  have revoked: "map rt_revokedAt (refresh_tokens (snd ?res)) = [Some 500000000, Some 501000000]"
    by (simp add: rows revokeAllForUser_def ex_dbB_def ex_rowA'_def ex_rowA_def ex_rowB_def)
  have ok: "?res = (Inr ''Password reset successful'', snd ?res)"
    using fst_ok by (cases ?res) simp
  from resetPassword_revokes_sessions[OF ok] found
  have "\<forall>cfg env2 tok. map_option claims_userId (decodeToken tok) = Some (pr_userId ex_reset)
           \<longrightarrow> isl (fst (refreshTokens cfg env2 (snd ?res) tok))"
    by simp
  moreover have "map_option claims_userId (decodeToken ex_tokB) = Some (pr_userId ex_reset)"
    by (simp add: ex_tokB_def ex_reset_def)
  ultimately have "\<forall>cfg env2. isl (fst (refreshTokens cfg env2 (snd ?res) ex_tokB))"
    by blast
  with fst_ok revoked show ?thesis by simp
qed


subsection \<open>Revocations are never undone\<close>

text \<open>
  No method of the service clears \<^verbatim>\<open>revokedAt\<close> or deletes a row, and new rows come after
  the existing ones: after any sequence of calls the ledger is the old one with some more
  rows revoked, followed by the rows added since.
\<close>

lemma only_revokes_comp:
  assumes "only_revokes f" "only_revokes g"
  shows "only_revokes (\<lambda>t. g (f t))"
  unfolding only_revokes_def
proof
  fix t
  from assms(1) have f: "f t = t \<or> (\<exists>v. f t = t\<lparr>rt_revokedAt := Some v\<rparr>)"
    by (simp add: only_revokes_def)
  from assms(2) have g: "g (f t) = f t \<or> (\<exists>w. g (f t) = (f t)\<lparr>rt_revokedAt := Some w\<rparr>)"
    by (simp add: only_revokes_def)
  from f g show "g (f t) = t \<or> (\<exists>v. g (f t) = t\<lparr>rt_revokedAt := Some v\<rparr>)"
    by auto
qed

lemma login_rows:
  "refresh_tokens (snd (login deps cfg env db email password)) = refresh_tokens db
   \<or> (\<exists>row. refresh_tokens (snd (login deps cfg env db email password))
                = refresh_tokens db @ [row])"
  by (auto simp: login_def Let_def split: option.splits sum.splits if_splits)

lemma refresh_rows:
  "refresh_tokens (snd (refreshTokens cfg env db tok)) = refresh_tokens db
   \<or> (\<exists>fam. refresh_tokens (snd (refreshTokens cfg env db tok))
                = revokeFamily (env_now env) fam (refresh_tokens db))
   \<or> (\<exists>rid. refresh_tokens (snd (refreshTokens cfg env db tok))
                = revokeById (env_now env) rid (refresh_tokens db))
   \<or> (\<exists>rid row. refresh_tokens (snd (refreshTokens cfg env db tok))
                = revokeById (env_now env) rid (refresh_tokens db) @ [row])"
proof (cases "refreshTokens cfg env db tok")
  case (Pair res db')
  show ?thesis
  proof (cases res)
    case (Inl e)
    with Pair have "db' = db
        \<or> (\<exists>fam. refresh_tokens db' = revokeFamily (env_now env) fam (refresh_tokens db))
        \<or> (\<exists>rid. refresh_tokens db' = revokeById (env_now env) rid (refresh_tokens db))"
      unfolding refreshTokens_def
      by (auto simp: Let_def split: option.splits if_splits sum.splits)
    with Pair show ?thesis by auto
  next
    case (Inr resp)
    with Pair have ok: "refreshTokens cfg env db tok = (Inr resp, db')" by simp
    from refresh_success_inv[OF ok] obtain stored :: RefreshToken and row where
      "db' = db\<lparr>refresh_tokens :=
                      revokeById (env_now env) (rt_id stored) (refresh_tokens db) @ [row]\<rparr>"
      by blast
    with Pair show ?thesis by auto
  qed
qed

lemma logout_rows:
  "refresh_tokens (logout env db uid tok) = refresh_tokens db
   \<or> (\<exists>rid. refresh_tokens (logout env db uid tok)
                = revokeById (env_now env) rid (refresh_tokens db))"
  by (auto simp: logout_def split: option.splits)

lemma reset_rows:
  "refresh_tokens (snd (resetPassword deps env db tok newPassword)) = refresh_tokens db
   \<or> (\<exists>u. refresh_tokens (snd (resetPassword deps env db tok newPassword))
                = revokeAllForUser (env_now env) u (refresh_tokens db))"
  by (auto simp: resetPassword_def Let_def split: option.splits if_splits)

lemma rows_shapes:
  "rows' = rows \<Longrightarrow> \<exists>f extra. only_revokes f \<and> rows' = map f rows @ extra"
  "rows' = rows @ [row] \<Longrightarrow> \<exists>f extra. only_revokes f \<and> rows' = map f rows @ extra"
  "rows' = revokeById now rid rows \<Longrightarrow> \<exists>f extra. only_revokes f \<and> rows' = map f rows @ extra"
  "rows' = revokeById now rid rows @ [row]
     \<Longrightarrow> \<exists>f extra. only_revokes f \<and> rows' = map f rows @ extra"
  "rows' = revokeFamily now fam rows \<Longrightarrow> \<exists>f extra. only_revokes f \<and> rows' = map f rows @ extra"
  "rows' = revokeAllForUser now u rows \<Longrightarrow> \<exists>f extra. only_revokes f \<and> rows' = map f rows @ extra"
proof -
  show "rows' = rows \<Longrightarrow> \<exists>f extra. only_revokes f \<and> rows' = map f rows @ extra"
    using only_revokes_id by (intro exI[of _ "\<lambda>t. t"] exI[of _ "[]"]) simp
  show "rows' = rows @ [row] \<Longrightarrow> \<exists>f extra. only_revokes f \<and> rows' = map f rows @ extra"
    using only_revokes_id by (intro exI[of _ "\<lambda>t. t"] exI[of _ "[row]"]) simp
  show "rows' = revokeById now rid rows \<Longrightarrow> \<exists>f extra. only_revokes f \<and> rows' = map f rows @ extra"
    using only_revokes_if[of "\<lambda>t. rt_id t = rid" now]
    by (intro exI[of _ "\<lambda>t. if rt_id t = rid then t\<lparr>rt_revokedAt := Some now\<rparr> else t"]
              exI[of _ "[]"]) (simp add: revokeById_def)
  show "rows' = revokeById now rid rows @ [row]
     \<Longrightarrow> \<exists>f extra. only_revokes f \<and> rows' = map f rows @ extra"
    using only_revokes_if[of "\<lambda>t. rt_id t = rid" now]
    by (intro exI[of _ "\<lambda>t. if rt_id t = rid then t\<lparr>rt_revokedAt := Some now\<rparr> else t"]
              exI[of _ "[row]"]) (simp add: revokeById_def)
  show "rows' = revokeFamily now fam rows \<Longrightarrow> \<exists>f extra. only_revokes f \<and> rows' = map f rows @ extra"
    using only_revokes_if[of "\<lambda>t. rt_tokenFamily t = fam" now]
    by (intro exI[of _ "\<lambda>t. if rt_tokenFamily t = fam then t\<lparr>rt_revokedAt := Some now\<rparr> else t"]
              exI[of _ "[]"]) (simp add: revokeFamily_def)
  show "rows' = revokeAllForUser now u rows \<Longrightarrow> \<exists>f extra. only_revokes f \<and> rows' = map f rows @ extra"
    using only_revokes_if[of "\<lambda>t. rt_userId t = u \<and> rt_revokedAt t = None" now]
    by (intro exI[of _ "\<lambda>t. if rt_userId t = u \<and> rt_revokedAt t = None
                             then t\<lparr>rt_revokedAt := Some now\<rparr> else t"]
              exI[of _ "[]"]) (simp add: revokeAllForUser_def)
qed

lemma service_step_only_revokes:
  assumes "service_step db db'"
  shows "\<exists>f extra. only_revokes f \<and> refresh_tokens db' = map f (refresh_tokens db) @ extra"
  using assms
proof (cases rule: service_step.cases)
  case (step_login deps cfg env email password)
  with login_rows[of deps cfg env db email password] rows_shapes(1,2)
  show ?thesis by metis
next
  case (step_refresh cfg env tok)
  with refresh_rows[of cfg env db tok] rows_shapes(1,3,4,5)
  show ?thesis by metis
next
  case (step_logout env uid tok)
  with logout_rows[of env db uid tok] rows_shapes(1,3)
  show ?thesis by metis
next
  case (step_reset deps env tok newPassword)
  with reset_rows[of deps env db tok newPassword] rows_shapes(1,6)
  show ?thesis by metis
qed

lemma steps_only_revoke:
  assumes "service_step\<^sup>*\<^sup>* db db'"
  shows "\<exists>f extra. only_revokes f \<and> refresh_tokens db' = map f (refresh_tokens db) @ extra"
  using assms
proof (induction rule: rtranclp_induct)
  case base
  show ?case using rows_shapes(1) by blast
next
  case (step y z)
  from step.IH obtain f extra where f: "only_revokes f"
    and y: "refresh_tokens y = map f (refresh_tokens db) @ extra" by blast
  from service_step_only_revokes[OF step.hyps(2)] obtain g extra' where g: "only_revokes g"
    and z: "refresh_tokens z = map g (refresh_tokens y) @ extra'" by blast
  have "refresh_tokens z = map (\<lambda>t. g (f t)) (refresh_tokens db) @ (map g extra @ extra')"
    using y z by simp
  with only_revokes_comp[OF f g] show ?case by blast
qed

text \<open>
  In particular the \<open>i\<close>-th row of the ledger stays the \<open>i\<close>-th row, with its id, hash,
  family and user, and once revoked it stays revoked.
\<close>

lemma revocation_is_permanent:
  assumes steps: "service_step\<^sup>*\<^sup>* db db'"
      and i: "i < length (refresh_tokens db)"
  shows "i < length (refresh_tokens db')
       \<and> rt_id (refresh_tokens db' ! i) = rt_id (refresh_tokens db ! i)
       \<and> rt_tokenHash (refresh_tokens db' ! i) = rt_tokenHash (refresh_tokens db ! i)
       \<and> (rt_revokedAt (refresh_tokens db ! i) \<noteq> None
            \<longrightarrow> rt_revokedAt (refresh_tokens db' ! i) \<noteq> None)"
proof -
  from steps_only_revoke[OF steps] obtain f extra where f: "only_revokes f"
    and rows: "refresh_tokens db' = map f (refresh_tokens db) @ extra" by blast
  have "refresh_tokens db' ! i = f (refresh_tokens db ! i)"
    using i rows by (simp add: nth_append)
  then show ?thesis
    using i rows only_revokes_keeps[OF f, of "refresh_tokens db ! i"] by simp
qed

section \<open>The realtime hub\<close>

subsection \<open>Effects of the four bookkeeping operations\<close>

lemma subs_of_upd [simp]:
  "subs_of (m(k \<mapsto> S)) k' = (if k' = k then S else subs_of m k')"
  "subs_of (m(k := None)) k' = (if k' = k then {} else subs_of m k')"
  by (simp_all add: subs_of_def)

lemma subscribeToFleet_effect:
  assumes "subscribeToFleet c fid h = (c', h')"
  shows "ws_id c' = ws_id c"
    and "subscriptions c' = set_add (''fleet:'' @ js_to_string (Some fid)) (subscriptions c)"
    and "ws_user c' = ws_user c"
    and "clients h' = clients h"
    and "regulatorSubscriptions h' = regulatorSubscriptions h"
    and "subs_of (fleetSubscriptions h') k
           = (if k = fid then insert (ws_id c) (subs_of (fleetSubscriptions h) k)
              else subs_of (fleetSubscriptions h) k)"
  using assms by (auto simp: subscribeToFleet_def Let_def subs_of_def)

lemma subscribeToRegulator_effect:
  assumes "subscribeToRegulator c rid h = (c', h')"
  shows "ws_id c' = ws_id c"
    and "subscriptions c' = set_add (''regulator:'' @ js_to_string (Some rid)) (subscriptions c)"
    and "ws_user c' = ws_user c"
    and "clients h' = clients h"
    and "fleetSubscriptions h' = fleetSubscriptions h"
    and "subs_of (regulatorSubscriptions h') k
           = (if k = rid then insert (ws_id c) (subs_of (regulatorSubscriptions h) k)
              else subs_of (regulatorSubscriptions h) k)"
  using assms by (auto simp: subscribeToRegulator_def Let_def subs_of_def)

lemma unsubscribeFromFleet_effect:
  assumes "unsubscribeFromFleet c fid h = (c', h')"
  shows "ws_id c' = ws_id c"
    and "subscriptions c' = set_delete (''fleet:'' @ js_to_string (Some fid)) (subscriptions c)"
    and "ws_user c' = ws_user c"
    and "clients h' = clients h"
    and "regulatorSubscriptions h' = regulatorSubscriptions h"
    and "subs_of (fleetSubscriptions h') k
           = (if k = fid then subs_of (fleetSubscriptions h) k - {ws_id c}
              else subs_of (fleetSubscriptions h) k)"
  using assms
  by (auto simp: unsubscribeFromFleet_def Let_def subs_of_def split: option.splits if_splits)

lemma unsubscribeFromRegulator_effect:
  assumes "unsubscribeFromRegulator c rid h = (c', h')"
  shows "ws_id c' = ws_id c"
    and "subscriptions c' = set_delete (''regulator:'' @ js_to_string (Some rid)) (subscriptions c)"
    and "ws_user c' = ws_user c"
    and "clients h' = clients h"
    and "fleetSubscriptions h' = fleetSubscriptions h"
    and "subs_of (regulatorSubscriptions h') k
           = (if k = rid then subs_of (regulatorSubscriptions h) k - {ws_id c}
              else subs_of (regulatorSubscriptions h) k)"
  using assms
  by (auto simp: unsubscribeFromRegulator_def Let_def subs_of_def split: option.splits if_splits)

lemma replace_first_prefix: "replace_first (pat @ s) pat [] = s" if "pat \<noteq> []"
  using that by (cases pat) (simp_all add: startsWith_def)

lemma startsWith_prefix [simp]: "startsWith (pat @ s) pat"
  by (simp add: startsWith_def)


lemma not_fleet_prefix [simp]: "\<not> startsWith (''regulator:'' @ s) ''fleet:''"
  by (simp add: startsWith_def)

lemma unwind_one_effect:
  assumes "unwind_one k (c, h) = (c', h')"
  shows "ws_id c' = ws_id c \<and> clients h' = clients h
       \<and> set (subscriptions c') \<subseteq> set (subscriptions c)
       \<and> (\<forall>j. subs_of (fleetSubscriptions h') j - {ws_id c}
                 = subs_of (fleetSubscriptions h) j - {ws_id c})
       \<and> (\<forall>j. subs_of (regulatorSubscriptions h') j - {ws_id c}
                 = subs_of (regulatorSubscriptions h) j - {ws_id c})
       \<and> (\<forall>j. ws_id c \<notin> subs_of (fleetSubscriptions h) j
                 \<longrightarrow> ws_id c \<notin> subs_of (fleetSubscriptions h') j)
       \<and> (\<forall>j. ws_id c \<notin> subs_of (regulatorSubscriptions h) j
                 \<longrightarrow> ws_id c \<notin> subs_of (regulatorSubscriptions h') j)
       \<and> (\<forall>s. k = ''fleet:'' @ s \<longrightarrow> ws_id c \<notin> subs_of (fleetSubscriptions h') (JString s))
       \<and> (\<forall>s. k = ''regulator:'' @ s
                 \<longrightarrow> ws_id c \<notin> subs_of (regulatorSubscriptions h') (JString s))"
proof -
  consider (f) "startsWith k ''fleet:''"
    | (r) "\<not> startsWith k ''fleet:''" "startsWith k ''regulator:''"
    | (n) "\<not> startsWith k ''fleet:''" "\<not> startsWith k ''regulator:''"
    by blast
  then show ?thesis
  proof cases
    case f
    with assms have u: "unsubscribeFromFleet c (JString (replace_first k ''fleet:'' [])) h = (c', h')"
      by (simp add: unwind_one_def)
    note e = unsubscribeFromFleet_effect[OF u]
    have cut: "replace_first (''fleet:'' @ s) ''fleet:'' [] = s" for s
      by (rule replace_first_prefix) simp
    show ?thesis
      using f by (auto simp: e cut set_delete_def startsWith_def)
  next
    case r
    with assms have u: "unsubscribeFromRegulator c (JString (replace_first k ''regulator:'' [])) h = (c', h')"
      by (simp add: unwind_one_def)
    note e = unsubscribeFromRegulator_effect[OF u]
    have cut: "replace_first (''regulator:'' @ s) ''regulator:'' [] = s" for s
      by (rule replace_first_prefix) simp
    show ?thesis
      using r by (auto simp: e cut set_delete_def startsWith_def)
  next
    case n
    with assms have same: "c' = c" "h' = h" by (simp_all add: unwind_one_def)
    show ?thesis using n by (auto simp: same startsWith_def)
  qed
qed

lemma fold_unwind_effect:
  assumes "fold unwind_one ks (c, h) = (c', h')"
  shows "ws_id c' = ws_id c \<and> clients h' = clients h
       \<and> (\<forall>j. subs_of (fleetSubscriptions h') j - {ws_id c}
                 = subs_of (fleetSubscriptions h) j - {ws_id c})
       \<and> (\<forall>j. subs_of (regulatorSubscriptions h') j - {ws_id c}
                 = subs_of (regulatorSubscriptions h) j - {ws_id c})
       \<and> (\<forall>j. ws_id c \<notin> subs_of (fleetSubscriptions h) j
                 \<longrightarrow> ws_id c \<notin> subs_of (fleetSubscriptions h') j)
       \<and> (\<forall>j. ws_id c \<notin> subs_of (regulatorSubscriptions h) j
                 \<longrightarrow> ws_id c \<notin> subs_of (regulatorSubscriptions h') j)
       \<and> (\<forall>s. ''fleet:'' @ s \<in> set ks \<longrightarrow> ws_id c \<notin> subs_of (fleetSubscriptions h') (JString s))
       \<and> (\<forall>s. ''regulator:'' @ s \<in> set ks
                 \<longrightarrow> ws_id c \<notin> subs_of (regulatorSubscriptions h') (JString s))"
  using assms
proof (induction ks arbitrary: c h)
  case Nil
  then show ?case by simp
next
  case (Cons k ks)
  obtain c1 h1 where step: "unwind_one k (c, h) = (c1, h1)"
    by (cases "unwind_one k (c, h)") auto
  with Cons.prems have rest: "fold unwind_one ks (c1, h1) = (c', h')" by simp
  note e = unwind_one_effect[OF step]
  note ih = Cons.IH[OF rest]
  have id: "ws_id c1 = ws_id c" using e by simp
  show ?case
    using e ih unfolding id by (auto simp del: append.simps)
qed

subsection \<open>The bookkeeping invariant\<close>

lemma hub_invD:
  assumes "hub_inv hub"
  shows "clients hub c = Some cl \<Longrightarrow> ws_id cl = c"
    and "c \<in> subs_of (fleetSubscriptions hub) k \<Longrightarrow>
          \<exists>s cl. k = JString s \<and> clients hub c = Some cl \<and> ''fleet:'' @ s \<in> set (subscriptions cl)"
    and "c \<in> subs_of (regulatorSubscriptions hub) k \<Longrightarrow>
          \<exists>s cl. k = JString s \<and> clients hub c = Some cl \<and> ''regulator:'' @ s \<in> set (subscriptions cl)"
  using assms unfolding hub_inv_def by blast+

lemma handleDisconnect_unfold:
  assumes "fold unwind_one (subscriptions client) (client, hub) = (c1, h1)"
  shows "handleDisconnect client hub = (c1, h1\<lparr>clients := (clients h1)(ws_id client := None)\<rparr>)"
  using assms by (simp add: handleDisconnect_def)

lemma disconnect_complete:
  assumes inv: "hub_inv hub" and reg: "clients hub cid = Some client"
  shows "clients (snd (handleDisconnect client hub)) cid = None
       \<and> (\<forall>k. cid \<notin> subs_of (fleetSubscriptions (snd (handleDisconnect client hub))) k)
       \<and> (\<forall>k. cid \<notin> subs_of (regulatorSubscriptions (snd (handleDisconnect client hub))) k)"
proof -
  obtain c1 h1 where f: "fold unwind_one (subscriptions client) (client, hub) = (c1, h1)"
    by (cases "fold unwind_one (subscriptions client) (client, hub)") auto
  note e = fold_unwind_effect[OF f]
  have id: "ws_id client = cid" using hub_invD(1)[OF inv reg] .
  have res: "snd (handleDisconnect client hub) = h1\<lparr>clients := (clients h1)(cid := None)\<rparr>"
    using handleDisconnect_unfold[OF f] id by simp
  have fl: "cid \<notin> subs_of (fleetSubscriptions h1) k" for k
  proof (cases "cid \<in> subs_of (fleetSubscriptions hub) k")
    case True
    from hub_invD(2)[OF inv True] reg obtain s where
      "k = JString s" "''fleet:'' @ s \<in> set (subscriptions client)" by auto
    then show ?thesis using e id by blast
  next
    case False
    then show ?thesis using e id by blast
  qed
  have rg: "cid \<notin> subs_of (regulatorSubscriptions h1) k" for k
  proof (cases "cid \<in> subs_of (regulatorSubscriptions hub) k")
    case True
    from hub_invD(3)[OF inv True] reg obtain s where
      "k = JString s" "''regulator:'' @ s \<in> set (subscriptions client)" by auto
    then show ?thesis using e id by blast
  next
    case False
    then show ?thesis using e id by blast
  qed
  show ?thesis unfolding res using fl rg by simp
qed

lemma on_close_preserves_inv:
  assumes inv: "hub_inv hub"
  shows "hub_inv (on_close hub cid)"
proof (cases "clients hub cid")
  case None
  then show ?thesis using inv by (simp add: on_close_def)
next
  case (Some client)
  obtain c1 h1 where f: "fold unwind_one (subscriptions client) (client, hub) = (c1, h1)"
    by (cases "fold unwind_one (subscriptions client) (client, hub)") auto
  note e = fold_unwind_effect[OF f]
  have id: "ws_id client = cid" using hub_invD(1)[OF inv Some] .
  let ?h = "h1\<lparr>clients := (clients h1)(cid := None)\<rparr>"
  have res: "on_close hub cid = ?h"
    using handleDisconnect_unfold[OF f] id Some by (simp add: on_close_def)
  have cl: "clients h1 = clients hub" using e by simp
  note dc = disconnect_complete[OF inv Some]
  have snd_eq: "snd (handleDisconnect client hub) = ?h"
    using handleDisconnect_unfold[OF f] id by simp
  have nf: "cid \<notin> subs_of (fleetSubscriptions h1) k" for k
    using dc unfolding snd_eq by simp
  have nr: "cid \<notin> subs_of (regulatorSubscriptions h1) k" for k
    using dc unfolding snd_eq by simp
  have subf: "c \<in> subs_of (fleetSubscriptions h1) k \<Longrightarrow> c \<in> subs_of (fleetSubscriptions hub) k \<and> c \<noteq> cid"
    for c k using e nf[of k] id by blast
  have subr: "c \<in> subs_of (regulatorSubscriptions h1) k
                \<Longrightarrow> c \<in> subs_of (regulatorSubscriptions hub) k \<and> c \<noteq> cid"
    for c k using e nr[of k] id by blast
  have "hub_inv ?h"
    unfolding hub_inv_def
  proof (intro conjI allI impI)
    fix c cl assume "clients ?h c = Some cl"
    then show "ws_id cl = c" using hub_invD(1)[OF inv] cl by (auto split: if_splits)
  next
    fix k c assume "c \<in> subs_of (fleetSubscriptions ?h) k"
    then have m: "c \<in> subs_of (fleetSubscriptions hub) k" and ne: "c \<noteq> cid"
      using subf by simp_all
    from hub_invD(2)[OF inv m] ne cl
    show "\<exists>s cl. k = JString s \<and> clients ?h c = Some cl \<and> ''fleet:'' @ s \<in> set (subscriptions cl)"
      by (auto simp del: append.simps)
  next
    fix k c assume "c \<in> subs_of (regulatorSubscriptions ?h) k"
    then have m: "c \<in> subs_of (regulatorSubscriptions hub) k" and ne: "c \<noteq> cid"
      using subr by simp_all
    from hub_invD(3)[OF inv m] ne cl
    show "\<exists>s cl. k = JString s \<and> clients ?h c = Some cl \<and> ''regulator:'' @ s \<in> set (subscriptions cl)"
      by (auto simp del: append.simps)
  qed
  then show ?thesis by (simp add: res)
qed

lemma truthy_string:
  assumes "is_string_or_absent v" "truthy v"
  shows "\<exists>s. v = Some (JString s)"
  using assms by (cases v rule: is_string_or_absent.cases) auto

lemma same_subs_send [simp]: "same_subs c (send c ev)"
  by (simp add: same_subs_def send_def)

lemma same_subs_refl [simp]: "same_subs c c"
  by (simp add: same_subs_def)

lemma handleSubscribe_shapes:
  assumes ty: "is_string_or_absent (p_fleetId p)" "is_string_or_absent (p_regulatorId p)"
      and run: "handleSubscribe client (Some p) hub = Inr (c', h')"
  shows "(h' = hub \<and> same_subs client c')
       \<or> (\<exists>s c1. subscribeToFleet client (JString s) hub = (c1, h') \<and> same_subs c1 c')
       \<or> (\<exists>s c1. subscribeToRegulator client (JString s) hub = (c1, h') \<and> same_subs c1 c')"
proof (cases "ws_user client")
  case None
  with run show ?thesis by (simp add: handleSubscribe_def)
next
  case (Some u)
  show ?thesis
  proof (cases "channel p = Some (JString ''fleet'') \<and> truthy (p_fleetId p)")
    case True
    then obtain s where s: "p_fleetId p = Some (JString s)"
      using truthy_string[OF ty(1)] by blast
    show ?thesis
    proof (cases "canSubscribeToFleet u (JString s)")
      case False
      with True Some s run show ?thesis by (auto simp: handleSubscribe_def)
    next
      case ok: True
      obtain c1 h1 where sub: "subscribeToFleet client (JString s) hub = (c1, h1)"
        by (cases "subscribeToFleet client (JString s) hub") auto
      with True Some s run ok have cs: "c' = send c1 (SUBSCRIBED p)" and hs: "h' = h1"
        by (auto simp: handleSubscribe_def)
      have "same_subs c1 c'" by (simp add: cs)
      with sub hs show ?thesis by blast
    qed
  next
    case nf: False
    show ?thesis
    proof (cases "channel p = Some (JString ''regulator'') \<and> truthy (p_regulatorId p)")
      case True
      then obtain s where s: "p_regulatorId p = Some (JString s)"
        using truthy_string[OF ty(2)] by blast
      obtain c1 h1 where sub: "subscribeToRegulator client (JString s) hub = (c1, h1)"
        by (cases "subscribeToRegulator client (JString s) hub") auto
      with True nf Some s run have cs: "c' = send c1 (SUBSCRIBED p)" and hs: "h' = h1"
        by (auto simp: handleSubscribe_def)
      have "same_subs c1 c'" by (simp add: cs)
      with sub hs show ?thesis by blast
    next
      case False
      with nf Some run show ?thesis by (auto simp: handleSubscribe_def)
    qed
  qed
qed

lemma handleUnsubscribe_shapes:
  assumes ty: "is_string_or_absent (p_fleetId p)" "is_string_or_absent (p_regulatorId p)"
      and run: "handleUnsubscribe client (Some p) hub = Inr (c', h')"
  shows "(h' = hub \<and> same_subs client c')
       \<or> (\<exists>s c1. unsubscribeFromFleet client (JString s) hub = (c1, h') \<and> same_subs c1 c')
       \<or> (\<exists>s c1. unsubscribeFromRegulator client (JString s) hub = (c1, h') \<and> same_subs c1 c')"
proof (cases "channel p = Some (JString ''fleet'') \<and> truthy (p_fleetId p)")
  case True
  then obtain s where s: "p_fleetId p = Some (JString s)"
    using truthy_string[OF ty(1)] by blast
  obtain c1 h1 where sub: "unsubscribeFromFleet client (JString s) hub = (c1, h1)"
    by (cases "unsubscribeFromFleet client (JString s) hub") auto
  with True s run have cs: "c' = send c1 (UNSUBSCRIBED p)" and hs: "h' = h1"
    by (auto simp: handleUnsubscribe_def)
  have "same_subs c1 c'" by (simp add: cs)
  with sub hs show ?thesis by blast
next
  case nf: False
  show ?thesis
  proof (cases "channel p = Some (JString ''regulator'') \<and> truthy (p_regulatorId p)")
    case True
    then obtain s where s: "p_regulatorId p = Some (JString s)"
      using truthy_string[OF ty(2)] by blast
    obtain c1 h1 where sub: "unsubscribeFromRegulator client (JString s) hub = (c1, h1)"
      by (cases "unsubscribeFromRegulator client (JString s) hub") auto
    with True nf s run have cs: "c' = send c1 (UNSUBSCRIBED p)" and hs: "h' = h1"
      by (auto simp: handleUnsubscribe_def)
    have "same_subs c1 c'" by (simp add: cs)
    with sub hs show ?thesis by blast
  next
    case False
    with nf run show ?thesis by (auto simp: handleUnsubscribe_def)
  qed
qed

lemma inv_update:
  assumes inv: "hub_inv hub"
      and cl: "clients H = (clients hub)(cid \<mapsto> c')"
      and id: "ws_id c' = cid"
      and F: "\<And>k c. c \<in> subs_of (fleetSubscriptions H) k \<Longrightarrow>
                (c \<noteq> cid \<and> c \<in> subs_of (fleetSubscriptions hub) k)
              \<or> (c = cid \<and> (\<exists>s. k = JString s \<and> ''fleet:'' @ s \<in> set (subscriptions c')))"
      and R: "\<And>k c. c \<in> subs_of (regulatorSubscriptions H) k \<Longrightarrow>
                (c \<noteq> cid \<and> c \<in> subs_of (regulatorSubscriptions hub) k)
              \<or> (c = cid \<and> (\<exists>s. k = JString s \<and> ''regulator:'' @ s \<in> set (subscriptions c')))"
  shows "hub_inv H"
  unfolding hub_inv_def
proof (intro conjI allI impI)
  fix c x assume "clients H c = Some x"
  then show "ws_id x = c"
    using cl id hub_invD(1)[OF inv] by (auto split: if_splits)
next
  fix k c assume m: "c \<in> subs_of (fleetSubscriptions H) k"
  from F[OF m] show "\<exists>s x. k = JString s \<and> clients H c = Some x \<and> ''fleet:'' @ s \<in> set (subscriptions x)"
  proof
    assume a: "c \<noteq> cid \<and> c \<in> subs_of (fleetSubscriptions hub) k"
    with hub_invD(2)[OF inv, of c k] cl show ?thesis by (auto simp del: append.simps)
  next
    assume "c = cid \<and> (\<exists>s. k = JString s \<and> ''fleet:'' @ s \<in> set (subscriptions c'))"
    with cl show ?thesis by (auto simp del: append.simps)
  qed
next
  fix k c assume m: "c \<in> subs_of (regulatorSubscriptions H) k"
  from R[OF m]
  show "\<exists>s x. k = JString s \<and> clients H c = Some x \<and> ''regulator:'' @ s \<in> set (subscriptions x)"
  proof
    assume a: "c \<noteq> cid \<and> c \<in> subs_of (regulatorSubscriptions hub) k"
    with hub_invD(3)[OF inv, of c k] cl show ?thesis by (auto simp del: append.simps)
  next
    assume "c = cid \<and> (\<exists>s. k = JString s \<and> ''regulator:'' @ s \<in> set (subscriptions c'))"
    with cl show ?thesis by (auto simp del: append.simps)
  qed
qed

text \<open>What the registered client's own memberships say about its subscription keys.\<close>

lemma own_keys:
  assumes inv: "hub_inv hub" and reg: "clients hub cid = Some client"
  shows "cid \<in> subs_of (fleetSubscriptions hub) k \<Longrightarrow>
           \<exists>s. k = JString s \<and> ''fleet:'' @ s \<in> set (subscriptions client)"
    and "cid \<in> subs_of (regulatorSubscriptions hub) k \<Longrightarrow>
           \<exists>s. k = JString s \<and> ''regulator:'' @ s \<in> set (subscriptions client)"
  using hub_invD(2)[OF inv, of cid k] hub_invD(3)[OF inv, of cid k] reg
  by (auto simp del: append.simps)

lemma set_set_add [simp]: "set (set_add k ks) = insert k (set ks)"
  by (auto simp: set_add_def)

lemma set_set_delete [simp]: "set (set_delete k ks) = set ks - {k}"
  by (auto simp: set_delete_def)

lemma inv_same:
  assumes inv: "hub_inv hub" and reg: "clients hub cid = Some client"
      and ss: "same_subs client c'"
  shows "hub_inv (hub\<lparr>clients := (clients hub)(cid \<mapsto> c')\<rparr>)"
proof (rule inv_update[OF inv, of _ cid c'])
  show "ws_id c' = cid" using ss hub_invD(1)[OF inv reg] by (simp add: same_subs_def)
  show "clients (hub\<lparr>clients := (clients hub)(cid \<mapsto> c')\<rparr>) = (clients hub)(cid \<mapsto> c')" by simp
next
  fix k c assume "c \<in> subs_of (fleetSubscriptions (hub\<lparr>clients := (clients hub)(cid \<mapsto> c')\<rparr>)) k"
  then show "(c \<noteq> cid \<and> c \<in> subs_of (fleetSubscriptions hub) k)
              \<or> (c = cid \<and> (\<exists>s. k = JString s \<and> ''fleet:'' @ s \<in> set (subscriptions c')))"
    using own_keys(1)[OF inv reg, of k] ss by (cases "c = cid") (auto simp: same_subs_def simp del: append.simps)
next
  fix k c assume "c \<in> subs_of (regulatorSubscriptions (hub\<lparr>clients := (clients hub)(cid \<mapsto> c')\<rparr>)) k"
  then show "(c \<noteq> cid \<and> c \<in> subs_of (regulatorSubscriptions hub) k)
              \<or> (c = cid \<and> (\<exists>s. k = JString s \<and> ''regulator:'' @ s \<in> set (subscriptions c')))"
    using own_keys(2)[OF inv reg, of k] ss by (cases "c = cid") (auto simp: same_subs_def simp del: append.simps)
qed

lemma inv_subscribeToFleet:
  assumes inv: "hub_inv hub" and reg: "clients hub cid = Some client"
      and sub: "subscribeToFleet client (JString s) hub = (c1, h')" and ss: "same_subs c1 c'"
  shows "hub_inv (h'\<lparr>clients := (clients h')(cid \<mapsto> c')\<rparr>)"
proof (rule inv_update[OF inv, of _ cid c'])
  note e = subscribeToFleet_effect[OF sub]
  have id: "ws_id client = cid" using hub_invD(1)[OF inv reg] .
  show "ws_id c' = cid" using ss e id by (simp add: same_subs_def)
  show "clients (h'\<lparr>clients := (clients h')(cid \<mapsto> c')\<rparr>) = (clients hub)(cid \<mapsto> c')"
    using e by simp
  have keys: "set (subscriptions c') = insert (''fleet:'' @ s) (set (subscriptions client))"
    using ss e by (simp add: same_subs_def)
  {
    fix k c assume "c \<in> subs_of (fleetSubscriptions (h'\<lparr>clients := (clients h')(cid \<mapsto> c')\<rparr>)) k"
    then have m: "c \<in> (if k = JString s then insert cid (subs_of (fleetSubscriptions hub) k)
                       else subs_of (fleetSubscriptions hub) k)"
      using e(6)[of k] id by (auto split: if_splits)
    show "(c \<noteq> cid \<and> c \<in> subs_of (fleetSubscriptions hub) k)
              \<or> (c = cid \<and> (\<exists>s. k = JString s \<and> ''fleet:'' @ s \<in> set (subscriptions c')))"
    proof (cases "c = cid")
      case False
      with m show ?thesis by (auto split: if_splits)
    next
      case True
      show ?thesis
      proof (cases "k = JString s")
        case ks: True
        with True keys show ?thesis by (auto simp del: append.simps)
      next
        case False
        with m True have "cid \<in> subs_of (fleetSubscriptions hub) k" by simp
        from own_keys(1)[OF inv reg this] True keys show ?thesis by (auto simp del: append.simps)
      qed
    qed
  next
    fix k c assume "c \<in> subs_of (regulatorSubscriptions (h'\<lparr>clients := (clients h')(cid \<mapsto> c')\<rparr>)) k"
    then have m: "c \<in> subs_of (regulatorSubscriptions hub) k" using e by simp
    show "(c \<noteq> cid \<and> c \<in> subs_of (regulatorSubscriptions hub) k)
              \<or> (c = cid \<and> (\<exists>s. k = JString s \<and> ''regulator:'' @ s \<in> set (subscriptions c')))"
    proof (cases "c = cid")
      case False
      with m show ?thesis by simp
    next
      case True
      with m have "cid \<in> subs_of (regulatorSubscriptions hub) k" by simp
      from own_keys(2)[OF inv reg this] True keys show ?thesis by (auto simp del: append.simps)
    qed
  }
qed

lemma inv_subscribeToRegulator:
  assumes inv: "hub_inv hub" and reg: "clients hub cid = Some client"
      and sub: "subscribeToRegulator client (JString s) hub = (c1, h')" and ss: "same_subs c1 c'"
  shows "hub_inv (h'\<lparr>clients := (clients h')(cid \<mapsto> c')\<rparr>)"
proof (rule inv_update[OF inv, of _ cid c'])
  note e = subscribeToRegulator_effect[OF sub]
  have id: "ws_id client = cid" using hub_invD(1)[OF inv reg] .
  show "ws_id c' = cid" using ss e id by (simp add: same_subs_def)
  show "clients (h'\<lparr>clients := (clients h')(cid \<mapsto> c')\<rparr>) = (clients hub)(cid \<mapsto> c')"
    using e by simp
  have keys: "set (subscriptions c') = insert (''regulator:'' @ s) (set (subscriptions client))"
    using ss e by (simp add: same_subs_def)
  {
    fix k c assume "c \<in> subs_of (regulatorSubscriptions (h'\<lparr>clients := (clients h')(cid \<mapsto> c')\<rparr>)) k"
    then have m: "c \<in> (if k = JString s then insert cid (subs_of (regulatorSubscriptions hub) k)
                       else subs_of (regulatorSubscriptions hub) k)"
      using e(6)[of k] id by (auto split: if_splits)
    show "(c \<noteq> cid \<and> c \<in> subs_of (regulatorSubscriptions hub) k)
              \<or> (c = cid \<and> (\<exists>s. k = JString s \<and> ''regulator:'' @ s \<in> set (subscriptions c')))"
    proof (cases "c = cid")
      case False
      with m show ?thesis by (auto split: if_splits)
    next
      case True
      show ?thesis
      proof (cases "k = JString s")
        case ks: True
        with True keys show ?thesis by (auto simp del: append.simps)
      next
        case False
        with m True have "cid \<in> subs_of (regulatorSubscriptions hub) k" by simp
        from own_keys(2)[OF inv reg this] True keys show ?thesis by (auto simp del: append.simps)
      qed
    qed
  next
    fix k c assume "c \<in> subs_of (fleetSubscriptions (h'\<lparr>clients := (clients h')(cid \<mapsto> c')\<rparr>)) k"
    then have m: "c \<in> subs_of (fleetSubscriptions hub) k" using e by simp
    show "(c \<noteq> cid \<and> c \<in> subs_of (fleetSubscriptions hub) k)
              \<or> (c = cid \<and> (\<exists>s. k = JString s \<and> ''fleet:'' @ s \<in> set (subscriptions c')))"
    proof (cases "c = cid")
      case False
      with m show ?thesis by simp
    next
      case True
      with m have "cid \<in> subs_of (fleetSubscriptions hub) k" by simp
      from own_keys(1)[OF inv reg this] True keys show ?thesis by (auto simp del: append.simps)
    qed
  }
qed

lemma inv_unsubscribeFromFleet:
  assumes inv: "hub_inv hub" and reg: "clients hub cid = Some client"
      and sub: "unsubscribeFromFleet client (JString s) hub = (c1, h')" and ss: "same_subs c1 c'"
  shows "hub_inv (h'\<lparr>clients := (clients h')(cid \<mapsto> c')\<rparr>)"
proof (rule inv_update[OF inv, of _ cid c'])
  note e = unsubscribeFromFleet_effect[OF sub]
  have id: "ws_id client = cid" using hub_invD(1)[OF inv reg] .
  show "ws_id c' = cid" using ss e id by (simp add: same_subs_def)
  show "clients (h'\<lparr>clients := (clients h')(cid \<mapsto> c')\<rparr>) = (clients hub)(cid \<mapsto> c')"
    using e by simp
  have keys: "set (subscriptions c') = set (subscriptions client) - {''fleet:'' @ s}"
    using ss e by (simp add: same_subs_def)
  {
    fix k c assume "c \<in> subs_of (fleetSubscriptions (h'\<lparr>clients := (clients h')(cid \<mapsto> c')\<rparr>)) k"
    then have m: "c \<in> subs_of (fleetSubscriptions hub) k" and ne: "k = JString s \<longrightarrow> c \<noteq> cid"
      using e(6)[of k] id by (auto split: if_splits)
    show "(c \<noteq> cid \<and> c \<in> subs_of (fleetSubscriptions hub) k)
              \<or> (c = cid \<and> (\<exists>s. k = JString s \<and> ''fleet:'' @ s \<in> set (subscriptions c')))"
    proof (cases "c = cid")
      case False
      with m show ?thesis by simp
    next
      case True
      with m have "cid \<in> subs_of (fleetSubscriptions hub) k" by simp
      from own_keys(1)[OF inv reg this] obtain s' where
        s': "k = JString s'" "''fleet:'' @ s' \<in> set (subscriptions client)" by blast
      with ne True have "s' \<noteq> s" by auto
      with s' keys True show ?thesis by (auto simp del: append.simps)
    qed
  next
    fix k c assume "c \<in> subs_of (regulatorSubscriptions (h'\<lparr>clients := (clients h')(cid \<mapsto> c')\<rparr>)) k"
    then have m: "c \<in> subs_of (regulatorSubscriptions hub) k" using e by simp
    show "(c \<noteq> cid \<and> c \<in> subs_of (regulatorSubscriptions hub) k)
              \<or> (c = cid \<and> (\<exists>s. k = JString s \<and> ''regulator:'' @ s \<in> set (subscriptions c')))"
    proof (cases "c = cid")
      case False
      with m show ?thesis by simp
    next
      case True
      with m have "cid \<in> subs_of (regulatorSubscriptions hub) k" by simp
      from own_keys(2)[OF inv reg this] obtain s' where
        s': "k = JString s'" "''regulator:'' @ s' \<in> set (subscriptions client)" by blast
      have "''regulator:'' @ s' \<noteq> ''fleet:'' @ s" by simp
      with s' keys True show ?thesis by (auto simp del: append.simps)
    qed
  }
qed

lemma inv_unsubscribeFromRegulator:
  assumes inv: "hub_inv hub" and reg: "clients hub cid = Some client"
      and sub: "unsubscribeFromRegulator client (JString s) hub = (c1, h')" and ss: "same_subs c1 c'"
  shows "hub_inv (h'\<lparr>clients := (clients h')(cid \<mapsto> c')\<rparr>)"
proof (rule inv_update[OF inv, of _ cid c'])
  note e = unsubscribeFromRegulator_effect[OF sub]
  have id: "ws_id client = cid" using hub_invD(1)[OF inv reg] .
  show "ws_id c' = cid" using ss e id by (simp add: same_subs_def)
  show "clients (h'\<lparr>clients := (clients h')(cid \<mapsto> c')\<rparr>) = (clients hub)(cid \<mapsto> c')"
    using e by simp
  have keys: "set (subscriptions c') = set (subscriptions client) - {''regulator:'' @ s}"
    using ss e by (simp add: same_subs_def)
  {
    fix k c assume "c \<in> subs_of (regulatorSubscriptions (h'\<lparr>clients := (clients h')(cid \<mapsto> c')\<rparr>)) k"
    then have m: "c \<in> subs_of (regulatorSubscriptions hub) k" and ne: "k = JString s \<longrightarrow> c \<noteq> cid"
      using e(6)[of k] id by (auto split: if_splits)
    show "(c \<noteq> cid \<and> c \<in> subs_of (regulatorSubscriptions hub) k)
              \<or> (c = cid \<and> (\<exists>s. k = JString s \<and> ''regulator:'' @ s \<in> set (subscriptions c')))"
    proof (cases "c = cid")
      case False
      with m show ?thesis by simp
    next
      case True
      with m have "cid \<in> subs_of (regulatorSubscriptions hub) k" by simp
      from own_keys(2)[OF inv reg this] obtain s' where
        s': "k = JString s'" "''regulator:'' @ s' \<in> set (subscriptions client)" by blast
      with ne True have "s' \<noteq> s" by auto
      with s' keys True show ?thesis by (auto simp del: append.simps)
    qed
  next
    fix k c assume "c \<in> subs_of (fleetSubscriptions (h'\<lparr>clients := (clients h')(cid \<mapsto> c')\<rparr>)) k"
    then have m: "c \<in> subs_of (fleetSubscriptions hub) k" using e by simp
    show "(c \<noteq> cid \<and> c \<in> subs_of (fleetSubscriptions hub) k)
              \<or> (c = cid \<and> (\<exists>s. k = JString s \<and> ''fleet:'' @ s \<in> set (subscriptions c')))"
    proof (cases "c = cid")
      case False
      with m show ?thesis by simp
    next
      case True
      with m have "cid \<in> subs_of (fleetSubscriptions hub) k" by simp
      from own_keys(1)[OF inv reg this] obtain s' where
        s': "k = JString s'" "''fleet:'' @ s' \<in> set (subscriptions client)" by blast
      have "''fleet:'' @ s' \<noteq> ''regulator:'' @ s" by simp
      with s' keys True show ?thesis by (auto simp del: append.simps)
    qed
  }
qed

lemma handleMessage_shapes:
  assumes ty: "typed_message msg" and run: "handleMessage client msg hub = (c', h')"
  shows "(h' = hub \<and> same_subs client c')
       \<or> (\<exists>s c1. subscribeToFleet client (JString s) hub = (c1, h') \<and> same_subs c1 c')
       \<or> (\<exists>s c1. subscribeToRegulator client (JString s) hub = (c1, h') \<and> same_subs c1 c')
       \<or> (\<exists>s c1. unsubscribeFromFleet client (JString s) hub = (c1, h') \<and> same_subs c1 c')
       \<or> (\<exists>s c1. unsubscribeFromRegulator client (JString s) hub = (c1, h') \<and> same_subs c1 c')"
proof (cases msg)
  case Unparseable
  with run have "h' = hub \<and> same_subs client c'" by (auto simp: handleMessage_def)
  then show ?thesis by blast
next
  case (Message t payload)
  consider (sub) "t = Some (JString ''SUBSCRIBE'')"
    | (unsub) "t \<noteq> Some (JString ''SUBSCRIBE'')" "t = Some (JString ''UNSUBSCRIBE'')"
    | (other) "t \<noteq> Some (JString ''SUBSCRIBE'')" "t \<noteq> Some (JString ''UNSUBSCRIBE'')"
    by blast
  then show ?thesis
  proof cases
    case sub
    show ?thesis
    proof (cases "handleSubscribe client payload hub")
      case (Inl e)
      with sub Message run have "h' = hub \<and> same_subs client c'"
        by (auto simp: handleMessage_def)
      then show ?thesis by blast
    next
      case (Inr r)
      with sub Message run have r: "r = (c', h')" by (simp add: handleMessage_def)
      show ?thesis
      proof (cases payload)
        case None
        with Inr r have "h' = hub \<and> same_subs client c'"
          by (auto simp: handleSubscribe_def split: option.splits)
        then show ?thesis by blast
      next
        case (Some p)
        with ty Message have "is_string_or_absent (p_fleetId p)" "is_string_or_absent (p_regulatorId p)"
          by simp_all
        from handleSubscribe_shapes[OF this, of client hub c' h'] Inr r Some
        show ?thesis by blast
      qed
    qed
  next
    case unsub
    show ?thesis
    proof (cases "handleUnsubscribe client payload hub")
      case (Inl e)
      with unsub Message run have "h' = hub \<and> same_subs client c'"
        by (auto simp: handleMessage_def)
      then show ?thesis by blast
    next
      case (Inr r)
      with unsub Message run have r: "r = (c', h')" by (simp add: handleMessage_def)
      show ?thesis
      proof (cases payload)
        case None
        with Inr show ?thesis by (simp add: handleUnsubscribe_def)
      next
        case (Some p)
        with ty Message have "is_string_or_absent (p_fleetId p)" "is_string_or_absent (p_regulatorId p)"
          by simp_all
        from handleUnsubscribe_shapes[OF this, of client hub c' h'] Inr r Some
        show ?thesis by blast
      qed
    qed
  next
    case other
    with Message run have "h' = hub \<and> same_subs client c'"
      by (auto simp: handleMessage_def split: if_splits)
    then show ?thesis by blast
  qed
qed

lemma on_message_preserves_inv:
  assumes inv: "hub_inv hub" and ty: "typed_message msg"
  shows "hub_inv (on_message hub cid msg)"
proof (cases "clients hub cid")
  case None
  then show ?thesis using inv by (simp add: on_message_def)
next
  case (Some client)
  obtain c' h' where run: "handleMessage client msg hub = (c', h')"
    by (cases "handleMessage client msg hub") auto
  have res: "on_message hub cid msg = h'\<lparr>clients := (clients h')(cid \<mapsto> c')\<rparr>"
    using Some run by (simp add: on_message_def)
  from handleMessage_shapes[OF ty run]
  have "hub_inv (h'\<lparr>clients := (clients h')(cid \<mapsto> c')\<rparr>)"
    using inv_same[OF inv Some] inv_subscribeToFleet[OF inv Some]
      inv_subscribeToRegulator[OF inv Some] inv_unsubscribeFromFleet[OF inv Some]
      inv_unsubscribeFromRegulator[OF inv Some]
    by blast
  then show ?thesis by (simp add: res)
qed

lemma inv_register:
  assumes inv: "hub_inv hub" and fresh: "clients hub uuid = None" and id: "ws_id c = uuid"
  shows "hub_inv (hub\<lparr>clients := (clients hub)(uuid \<mapsto> c)\<rparr>)"
  unfolding hub_inv_def
proof (intro conjI allI impI)
  fix x cl assume "clients (hub\<lparr>clients := (clients hub)(uuid \<mapsto> c)\<rparr>) x = Some cl"
  then show "ws_id cl = x" using id hub_invD(1)[OF inv] by (auto split: if_splits)
next
  fix k x assume "x \<in> subs_of (fleetSubscriptions (hub\<lparr>clients := (clients hub)(uuid \<mapsto> c)\<rparr>)) k"
  then have "x \<in> subs_of (fleetSubscriptions hub) k" by simp
  from hub_invD(2)[OF inv this] fresh
  show "\<exists>s cl. k = JString s \<and> clients (hub\<lparr>clients := (clients hub)(uuid \<mapsto> c)\<rparr>) x = Some cl
               \<and> ''fleet:'' @ s \<in> set (subscriptions cl)"
    by (auto simp del: append.simps)
next
  fix k x assume "x \<in> subs_of (regulatorSubscriptions (hub\<lparr>clients := (clients hub)(uuid \<mapsto> c)\<rparr>)) k"
  then have "x \<in> subs_of (regulatorSubscriptions hub) k" by simp
  from hub_invD(3)[OF inv this] fresh
  show "\<exists>s cl. k = JString s \<and> clients (hub\<lparr>clients := (clients hub)(uuid \<mapsto> c)\<rparr>) x = Some cl
               \<and> ''regulator:'' @ s \<in> set (subscriptions cl)"
    by (auto simp del: append.simps)
qed

lemma autoSubscribe_shapes:
  assumes "autoSubscribe c h = (c', h')"
  shows "(h' = h \<and> c' = c) \<or> (\<exists>s. subscribeToFleet c (JString s) h = (c', h'))"
  using assms unfolding autoSubscribe_def
  by (auto split: option.splits claims.splits if_splits)

lemma onConnection_preserves_inv:
  assumes inv: "hub_inv hub" and fresh: "clients hub uuid = None"
  shows "hub_inv (snd (onConnection cfg now uuid tokenParam hub))"
proof (cases "tokenParam = None \<or> tokenParam = Some (Opaque [])")
  case True
  then show ?thesis using inv by (auto simp: onConnection_def Let_def)
next
  case False
  show ?thesis
  proof (cases "verifyAccessToken cfg (the tokenParam) now")
    case (Inl e)
    with False show ?thesis using inv by (simp add: onConnection_def Let_def)
  next
    case (Inr payload)
    let ?c1 = "\<lparr>ws_id = uuid, ws_user = Some payload, subscriptions = [], isAlive = True,
                 sent = [], closed = None\<rparr>"
    let ?h1 = "hub\<lparr>clients := (clients hub)(uuid \<mapsto> ?c1)\<rparr>"
    obtain c2 h2 where a: "autoSubscribe ?c1 ?h1 = (c2, h2)"
      by (cases "autoSubscribe ?c1 ?h1") auto
    let ?c3 = "send c2 (CONNECTED uuid (claims_userId payload) (claims_role payload)
                 (subscriptions c2))"
    have res: "snd (onConnection cfg now uuid tokenParam hub)
                 = h2\<lparr>clients := (clients h2)(uuid \<mapsto> ?c3)\<rparr>"
      using False Inr a by (auto simp: onConnection_def Let_def)
    have inv1: "hub_inv ?h1" by (rule inv_register[OF inv fresh]) simp
    have reg1: "clients ?h1 uuid = Some ?c1" by simp
    have ss: "same_subs c2 ?c3" by simp
    from autoSubscribe_shapes[OF a]
    have "hub_inv (h2\<lparr>clients := (clients h2)(uuid \<mapsto> ?c3)\<rparr>)"
    proof
      assume "h2 = ?h1 \<and> c2 = ?c1"
      then show ?thesis using inv_same[OF inv1 reg1, of ?c3] ss by simp
    next
      assume "\<exists>s. subscribeToFleet ?c1 (JString s) ?h1 = (c2, h2)"
      then obtain s where "subscribeToFleet ?c1 (JString s) ?h1 = (c2, h2)" by blast
      from inv_subscribeToFleet[OF inv1 reg1 this ss] show ?thesis .
    qed
    then show ?thesis by (simp add: res)
  qed
qed

lemma hub_empty_inv: "hub_inv hub_empty"
  by (simp add: hub_inv_def hub_empty_def subs_of_def)

lemma reachable_typed_inv: "reachable_typed hub \<Longrightarrow> hub_inv hub"
proof (induction rule: reachable_typed.induct)
  case start
  show ?case by (rule hub_empty_inv)
next
  case (connect hub uuid cfg now tokenParam)
  then show ?case by (simp add: onConnection_preserves_inv)
next
  case (message hub msg cid)
  then show ?case by (simp add: on_message_preserves_inv)
next
  case (close hub cid)
  then show ?case by (simp add: on_close_preserves_inv)
qed

text \<open>
  In every hub state reached through messages whose ids are strings, the disconnect
  handler unwinds a registered connection completely: afterwards its id is in no fleet
  channel's and no device channel's subscriber set, and not in the registry.
\<close>

lemma disconnect_unwinds_string_ids:
  assumes "reachable_typed hub" and "clients hub cid = Some client"
  shows "clients (snd (handleDisconnect client hub)) cid = None
       \<and> (\<forall>k. cid \<notin> subs_of (fleetSubscriptions (snd (handleDisconnect client hub))) k)
       \<and> (\<forall>k. cid \<notin> subs_of (regulatorSubscriptions (snd (handleDisconnect client hub))) k)"
  using disconnect_complete[OF reachable_typed_inv[OF assms(1)] assms(2)] .

subsection \<open>The hub on concrete messages\<close>

lemma string_of_int_5: "string_of_int 5 = ''5''"
  by (simp add: string_of_int_def digit_char_def string_of_nat.simps)

lemma connect_example:
  "onConnection ex_cfg 1000000 ''c1'' (Some ex_adminToken) hub_empty = (ex_client1, ex_hub1)"
  by (simp add: onConnection_def ex_cfg_secret ex_adminToken_def verifyAccessToken_def Let_def
        autoSubscribe_def send_def hub_empty_def ex_client1_def ex_hub1_def ex_adminClaims_def
        truthy_str_def)

lemma subscribe_example:
  "on_message ex_hub1 ''c1'' (Message (Some (JString ''SUBSCRIBE'')) (Some ex_subscribe5)) = ex_hub2"
  by (simp add: on_message_def ex_hub1_def handleMessage_def handleSubscribe_def ex_client1_def
        ex_subscribe5_def subscribeToRegulator_def Let_def send_def set_add_def string_of_int_5
        ex_hub2_def ex_client2_def)

lemma disconnect_example:
  "handleDisconnect ex_client2 ex_hub2
     = (ex_client2\<lparr>subscriptions := []\<rparr>, ex_hub2\<lparr>clients := Map.empty\<rparr>)"
  by (simp add: ex_hub2_def handleDisconnect_def ex_client2_def ex_client1_def unwind_one_def
        startsWith_def unsubscribeFromRegulator_def Let_def set_delete_def)

text \<open>
  C6, the code at a failing input. The device-provisioning account is denied by
  \<open>canAccessRegulator\<close> for every device, whatever its fleet and owner; yet its
  \<open>Subscribe\<close> to the device channel \<open>R1\<close> puts its connection id into that channel's
  subscriber set and is answered with the \<open>SUBSCRIBED\<close> acknowledgement, not with an
  error: \<open>handleSubscribe\<close> consults no predicate on the device branch.
\<close>

theorem handleSubscribe_regulator_unchecked:
  "(\<forall>regulatorFleetId regulatorOwnerId.
      \<not> canAccessRegulator ex_onboarding regulatorFleetId regulatorOwnerId)
   \<and> handleSubscribe ex_clientO (Some ex_subscribeR1) ex_hubO
       = Inr (ex_clientO\<lparr>subscriptions := [''regulator:R1''],
                         sent := sent ex_clientO @ [SUBSCRIBED ex_subscribeR1]\<rparr>,
              ex_hubO\<lparr>regulatorSubscriptions := [JString ''R1'' \<mapsto> {''c2''}]\<rparr>)"
  by (simp add: canAccessRegulator_def ex_onboarding_def handleSubscribe_def ex_clientO_def
        ex_subscribeR1_def subscribeToRegulator_def Let_def send_def set_add_def ex_hubO_def)

text \<open>
  C7, the code at a failing input. An administrator connects to the empty hub and sends
  \<^verbatim>\<open>{"type":"SUBSCRIBE","payload":{"channel":"regulator","regulatorId":5}}\<close>, with the
  device id as a JSON number. The device map gets the key \<open>5\<close> (a number) and the
  connection the subscription key \<open>regulator:5\<close>. The disconnect handler cuts the id
  \<open>"5"\<close> (a string) out of that key and looks the string up, finds no subscriber set, and
  removes nothing: after it has run, the connection is gone from the registry and its own
  subscription set is empty, but its id is still in the subscriber set of device channel
  \<open>5\<close>.
\<close>

theorem handleDisconnect_leaves_residue:
  "onConnection ex_cfg 1000000 ''c1'' (Some ex_adminToken) hub_empty = (ex_client1, ex_hub1)
   \<and> on_message ex_hub1 ''c1'' (Message (Some (JString ''SUBSCRIBE'')) (Some ex_subscribe5)) = ex_hub2
   \<and> clients ex_hub2 ''c1'' = Some ex_client2
   \<and> clients (snd (handleDisconnect ex_client2 ex_hub2)) ''c1'' = None
   \<and> subscriptions (fst (handleDisconnect ex_client2 ex_hub2)) = []
   \<and> regulatorSubscriptions (snd (handleDisconnect ex_client2 ex_hub2)) (JNumber 5) = Some {''c1''}
   \<and> on_close ex_hub2 ''c1'' = snd (handleDisconnect ex_client2 ex_hub2)"
proof -
  have reg: "clients ex_hub2 ''c1'' = Some ex_client2"
    by (simp add: ex_hub2_def)
  have gone: "clients (ex_hub2\<lparr>clients := Map.empty\<rparr>) ''c1'' = None"
    by simp
  have residue: "regulatorSubscriptions (ex_hub2\<lparr>clients := Map.empty\<rparr>) (JNumber 5) = Some {''c1''}"
    by (simp add: ex_hub2_def)
  have close: "on_close ex_hub2 ''c1'' = snd (handleDisconnect ex_client2 ex_hub2)"
    by (simp add: on_close_def reg)
  show ?thesis
    using connect_example subscribe_example reg gone residue close
    by (simp add: disconnect_example)
qed

end
